theory Spec2Isabelle
  imports Complex_Main "HOL-Library.Log_Nat"
begin

section \<open>Identifiers, responses and collections\<close>

text \<open>
  Documents are addressed by their ObjectId, modelled as a natural number. A handler
  either answers with an error envelope (HTTP status and message) or succeeds; the
  messages are the string literals of the route files, one constructor each.
\<close>

type_synonym oid = nat

datatype content_type = Word | Letter

datatype msg =
    User_not_found
  | Role_not_authorized
  | Not_authorized
  | Request_not_found
  | Request_no_longer_pending
  | Parent_already_linked_to_another_specialist
  | Specialist_ID_required
  | Child_ID_required
  | Specialist_not_found
  | Child_not_found
  | Child_already_assigned
  | Already_pending_request
  | No_pending_request_for_child
  | Parent_ID_required
  | Parent_not_found
  | Parent_already_linked_to_this_specialist
  | Not_linked_to_any_specialist
  | Text_and_child_required
  | Text_type_and_child_required
  | Invalid_contentType
  | Content_type_must_be_word_or_letter
  | Difficulty_must_be_easy_medium_hard
  | Letter_must_be_single_character
  | Letter_with_vowel_max_2
  | Word_max_20
  | Already_exists content_type
  | Content_not_found
  | Word_not_found
  | Not_authorized_to_add_content
  | Not_authorized_to_delete_content
  | Error_adding_content
  | Error_deleting_content
  | Error_message

datatype failure = Failure nat msg

fun status_of :: "failure \<Rightarrow> nat" where
  "status_of (Failure code m) = code"

datatype role = Parent | Specialist | Admin | Superadmin

datatype request_status = Status_none | Status_pending | Status_approved | Status_rejected

datatype link_status = Req_pending | Req_accepted | Req_rejected

text \<open>\<^verbatim>\<open>$addToSet\<close>, \<^verbatim>\<open>$pull\<close> and \<^verbatim>\<open>$pullAll\<close> on an array field.\<close>

definition addToSet :: "'a list \<Rightarrow> 'a \<Rightarrow> 'a list" where
  "addToSet xs x = (if x \<in> set xs then xs else xs @ [x])"

definition pull :: "'a list \<Rightarrow> 'a \<Rightarrow> 'a list" where
  "pull xs x = filter (\<lambda>y. y \<noteq> x) xs"

definition pullAll :: "'a list \<Rightarrow> 'a list \<Rightarrow> 'a list" where
  "pullAll xs ys = filter (\<lambda>y. y \<notin> set ys) xs"

text \<open>\<^verbatim>\<open>Array.prototype.join\<close> on a list of strings.\<close>

fun join :: "string \<Rightarrow> string list \<Rightarrow> string" where
  "join sep [] = []"
| "join sep [x] = x"
| "join sep (x # y # ys) = x @ sep @ join sep (y # ys)"

section \<open>Strings\<close>

text \<open>
  A JavaScript string is a sequence of UTF-16 code units, and \<^verbatim>\<open>length\<close> counts them.
  \<^verbatim>\<open>String.prototype.trim\<close> removes the white space and line terminators of ECMAScript
  from both ends.
\<close>

type_synonym jsstring = "nat list"

definition units :: "string \<Rightarrow> jsstring" where
  "units s = map of_char s"

definition is_whitespace :: "nat \<Rightarrow> bool" where
  "is_whitespace c =
     (c \<in> {9, 10, 11, 12, 13, 32, 160, 5760, 8232, 8233, 8239, 8287, 12288, 65279}
      \<or> (8192 \<le> c \<and> c \<le> 8202))"

definition trim :: "jsstring \<Rightarrow> jsstring" where
  "trim s = rev (dropWhile is_whitespace (rev (dropWhile is_whitespace s)))"

section \<open>Data model\<close>

text \<open>
  The fields of the user schema (the last schema of \<^verbatim>\<open>src/unnamed/part_002\<close>), the
  child schema (the second schema of \<^verbatim>\<open>src/models/Notification.js\<close>) and the link
  request schema (\<^verbatim>\<open>src/models/LinkRequest.js\<close>) that the linkage routes read or
  write.
\<close>

record user =
  u_name :: string
  u_role :: role
  linkedSpecialist :: "oid option"
  linkedParents :: "oid list"
  assignedChildren :: "oid list"

record child =
  c_id :: oid
  c_name :: string
  c_parent :: oid
  assignedSpecialist :: "oid option"
  specialistRequestStatus :: request_status

record link_request =
  r_id :: oid
  r_from :: oid
  r_to :: oid
  r_child :: "oid option"
  r_status :: link_status
  r_message :: jsstring

text \<open>
  Notifications are kept structurally: the recipient, the values interpolated into the
  message template and the \<^verbatim>\<open>data\<close> object. In the unlink message the list of names
  is \<^verbatim>\<open>childNames || '<no names>'\<close>; it is absent when no child was detached.
\<close>

datatype names_text = Names string | Without_names

datatype notification =
    Link_accepted oid string oid
  | Link_cancelled oid string "names_text option" oid "oid list"
  | Session_completed oid string oid oid


section \<open>Content documents (\<^verbatim>\<open>src/models/Exercise.js\<close>)\<close>

datatype difficulty = Easy | Medium | Hard

datatype kind = Plan | Content

record content_item =
  i_id :: oid
  i_text :: jsstring
  i_difficulty :: difficulty
  i_image :: string
  i_createdBy :: oid
  i_createdAt :: int

record exercise =
  e_id :: oid
  e_child :: oid
  e_kind :: kind
  contentWords :: "content_item list"
  contentLetters :: "content_item list"

text \<open>
  What a request body can hold for \<^verbatim>\<open>contentType\<close> and \<^verbatim>\<open>difficulty\<close>: nothing (or
  the empty string, which JavaScript treats alike), one of the values of the enum, or
  some other string.
\<close>

datatype type_input = No_type | Type content_type | Other_type

datatype difficulty_input = No_difficulty | Difficulty difficulty | Other_difficulty

section \<open>Numbers\<close>

text \<open>
  A JavaScript Number is an IEEE 754 double: \<^verbatim>\<open>NaN\<close>, one of the two infinities, or a
  finite value, given here by the rational it denotes. The two zeros are one value,
  \<open>Finite 0\<close>: the code below never divides by a zero nor inspects its sign. \<open>Finite r\<close>
  is meant for an \<open>r\<close> that is a double; an operation rounds its exact result with
  \<open>to_double\<close>, to the nearest double and to the even significand on a tie.

  \<open>ilog2 a\<close> is the exponent \<open>e\<close> of a positive \<open>a\<close>, with \<open>2 ^ e \<le> a < 2 ^ (e + 1)\<close>. The
  doubles near \<open>a\<close> are the multiples of \<open>2 ^ (e - 52)\<close>, and of \<open>2 ^ - 1074\<close> below the
  normal range; a rounded magnitude of \<open>2 ^ 1024\<close> or more is an infinity.
\<close>

datatype number = Not_a_number | Positive_infinity | Negative_infinity | Finite rat

definition pow2 :: "int \<Rightarrow> rat" where
  "pow2 k = (if 0 \<le> k then 2 ^ nat k else 1 / 2 ^ nat (- k))"

definition ilog2 :: "rat \<Rightarrow> int" where
  "ilog2 a = (if 1 \<le> a then int (floorlog 2 (nat \<lfloor>a\<rfloor>)) - 1
              else - int (floorlog 2 (nat (\<lceil>1 / a\<rceil> - 1))))"

definition round_half_even :: "rat \<Rightarrow> int" where
  "round_half_even r =
     (let f = \<lfloor>r\<rfloor>; d = r - of_int f
      in if d < 1 / 2 then f
         else if 1 / 2 < d then f + 1
         else if even f then f else f + 1)"

definition to_double :: "rat \<Rightarrow> number" where
  "to_double x =
     (if x = 0 then Finite 0
      else
        let a = \<bar>x\<bar>;
            e = max (ilog2 a) (- 1022);
            q = pow2 (e - 52);
            v = of_int (round_half_even (a / q)) * q
        in if pow2 1024 \<le> v then (if 0 < x then Positive_infinity else Negative_infinity)
           else Finite (if 0 < x then v else - v))"

text \<open>
  The operators \<^verbatim>\<open>+\<close>, \<^verbatim>\<open>*\<close> and \<^verbatim>\<open>/\<close> on Numbers, and the test \<^verbatim>\<open>x > 0\<close>. \<open>sign\<close> is
  \<open>-1\<close>, \<open>0\<close> or \<open>1\<close>. In \<open>js_div\<close> a zero divisor is read as the positive zero; where the
  code divides, the divisor is a total that was tested to be \<^verbatim>\<open>> 0\<close> or the length of a
  non-empty array.
\<close>

fun js_add :: "number \<Rightarrow> number \<Rightarrow> number" where
  "js_add (Finite x) (Finite y) = to_double (x + y)"
| "js_add Not_a_number b = Not_a_number"
| "js_add a Not_a_number = Not_a_number"
| "js_add Positive_infinity Negative_infinity = Not_a_number"
| "js_add Negative_infinity Positive_infinity = Not_a_number"
| "js_add Positive_infinity b = Positive_infinity"
| "js_add Negative_infinity b = Negative_infinity"
| "js_add (Finite x) b = b"

fun sign :: "number \<Rightarrow> int" where
  "sign (Finite x) = (if 0 < x then 1 else if x < 0 then - 1 else 0)"
| "sign Positive_infinity = 1"
| "sign Negative_infinity = - 1"
| "sign Not_a_number = 0"

fun js_mul :: "number \<Rightarrow> number \<Rightarrow> number" where
  "js_mul (Finite x) (Finite y) = to_double (x * y)"
| "js_mul Not_a_number b = Not_a_number"
| "js_mul a Not_a_number = Not_a_number"
| "js_mul a b = (if sign a * sign b = 0 then Not_a_number
                 else if 0 < sign a * sign b then Positive_infinity
                 else Negative_infinity)"

fun js_div :: "number \<Rightarrow> number \<Rightarrow> number" where
  "js_div (Finite x) (Finite y) =
     (if y = 0 then (if x = 0 then Not_a_number
                     else if 0 < x then Positive_infinity else Negative_infinity)
      else to_double (x / y))"
| "js_div Not_a_number b = Not_a_number"
| "js_div a Not_a_number = Not_a_number"
| "js_div (Finite x) b = Finite 0"
| "js_div a (Finite y) = (if (0 \<le> y) = (a = Positive_infinity)
                           then Positive_infinity else Negative_infinity)"
| "js_div a b = Not_a_number"

fun js_positive :: "number \<Rightarrow> bool" where
  "js_positive (Finite x) = (0 < x)"
| "js_positive Positive_infinity = True"
| "js_positive a = False"

section \<open>Progress documents (the first schema of \<^verbatim>\<open>src/unnamed/part_002\<close>)\<close>

text \<open>
  A field that is absent (or \<^verbatim>\<open>null\<close> in a stored document) is \<open>None\<close>. Dates are
  milliseconds since the epoch. Of an attempt, the fields the attempts route only copies
  (the detailed scores and the recognised text) are left out, and so are the
  \<^verbatim>\<open>robotFeedback\<close> of a session and the four lists of mastered and challenging items of
  the statistics, which no route modelled here writes.
\<close>

record attempt =
  a_letter :: "string option"
  a_word :: "string option"
  a_vowel :: "string option"
  a_success :: "bool option"
  a_score :: "number option"
  a_timestamp :: "int option"

record session =
  s_sessionDate :: "int option"
  s_duration :: "number option"
  s_totalAttempts :: "number option"
  s_successfulAttempts :: "number option"
  s_failedAttempts :: "number option"
  s_averageScore :: "number option"
  s_attempts :: "attempt list"

record overall_stats =
  totalSessions :: number
  totalPlayTime :: number
  totalAttempts :: number
  successRate :: number
  averageScore :: number

record progress =
  p_id :: oid
  p_child :: oid
  sessions :: "session list"
  overallStats :: overall_stats
  lastSyncDate :: int


section \<open>The store\<close>

text \<open>
  Users are kept by identifier (\<^verbatim>\<open>findById\<close> and \<^verbatim>\<open>findByIdAndUpdate\<close> are the only
  accesses); the other collections are lists in insertion order, since queries over them
  return lists. A write that the schema of the document refuses is rejected; apart from
  that, database calls are taken to succeed, except in the two routes that append to a
  progress document, which are modelled with the failures of their calls.
\<close>

record store =
  users :: "oid \<rightharpoonup> user"
  children :: "child list"
  requests :: "link_request list"
  notifications :: "notification list"
  exercises :: "exercise list"
  progress :: "progress list"

text \<open>\<^verbatim>\<open>User.findByIdAndUpdate(id, update)\<close>: no document, no change.\<close>

definition update_user :: "oid \<Rightarrow> (user \<Rightarrow> user) \<Rightarrow> (oid \<rightharpoonup> user) \<Rightarrow> (oid \<rightharpoonup> user)" where
  "update_user i f us = (case us i of None \<Rightarrow> us | Some u \<Rightarrow> us(i \<mapsto> f u))"

definition find_child :: "child list \<Rightarrow> oid \<Rightarrow> child option" where
  "find_child cs i = find (\<lambda>c. c_id c = i) cs"

definition save_child :: "child \<Rightarrow> child list \<Rightarrow> child list" where
  "save_child c cs = map (\<lambda>d. if c_id d = c_id c then c else d) cs"

definition find_request :: "link_request list \<Rightarrow> oid \<Rightarrow> link_request option" where
  "find_request rs i = find (\<lambda>r. r_id r = i) rs"

definition save_request :: "link_request \<Rightarrow> link_request list \<Rightarrow> link_request list" where
  "save_request r rs = map (\<lambda>d. if r_id d = r_id r then r else d) rs"

subsection \<open>Middleware (\<^verbatim>\<open>src/middleware/auth.js\<close>)\<close>

text \<open>
  \<^verbatim>\<open>protect\<close> after the token has been verified: the decoded identifier must name a user.
  \<^verbatim>\<open>authorize(r)\<close> compares the role of that user.
\<close>

definition protect :: "store \<Rightarrow> oid \<Rightarrow> failure + user" where
  "protect st uid =
     (case users st uid of
        None \<Rightarrow> Inl (Failure 401 User_not_found)
      | Some u \<Rightarrow> Inr u)"

definition authorize :: "role \<Rightarrow> store \<Rightarrow> oid \<Rightarrow> failure + user" where
  "authorize r st uid =
     (case protect st uid of
        Inl e \<Rightarrow> Inl e
      | Inr u \<Rightarrow> if u_role u = r then Inr u else Inl (Failure 403 Role_not_authorized))"

section \<open>Linkage routes\<close>

text \<open>
  The routes of the specialists are in \<^verbatim>\<open>src/unnamed/part_004\<close>, those of the parents
  in \<^verbatim>\<open>src/routes/parent.js\<close>.
\<close>

subsection \<open>\<^verbatim>\<open>POST /api/parents/send-link-request\<close>\<close>

text \<open>
  \<open>message\<close> is the body's \<^verbatim>\<open>message || ''\<close>. The schema of the link request
  (\<^verbatim>\<open>src/models/LinkRequest.js\<close>) trims it and validates \<^verbatim>\<open>maxlength: 500\<close> on the
  trimmed text: for a longer one \<^verbatim>\<open>LinkRequest.create\<close> rejects, nothing is written and
  the \<^verbatim>\<open>catch\<close> answers 500.
\<close>

definition send_link_request ::
  "store \<Rightarrow> oid \<Rightarrow> oid option \<Rightarrow> oid option \<Rightarrow> jsstring \<Rightarrow> oid \<Rightarrow> failure + store" where
  "send_link_request st uid specialistId childId message new_id =
     (case authorize Parent st uid of
        Inl e \<Rightarrow> Inl e
      | Inr me \<Rightarrow>
     (case specialistId of
        None \<Rightarrow> Inl (Failure 400 Specialist_ID_required)
      | Some sid \<Rightarrow>
     (case childId of
        None \<Rightarrow> Inl (Failure 400 Child_ID_required)
      | Some cid \<Rightarrow>
     (case users st sid of
        None \<Rightarrow> Inl (Failure 404 Specialist_not_found)
      | Some specialist \<Rightarrow>
     if u_role specialist \<noteq> Specialist then Inl (Failure 404 Specialist_not_found)
     else
     (case find_child (children st) cid of
        None \<Rightarrow> Inl (Failure 404 Child_not_found)
      | Some ch \<Rightarrow>
     if c_parent ch \<noteq> uid then Inl (Failure 404 Child_not_found)
     else if assignedSpecialist ch \<noteq> None then Inl (Failure 400 Child_already_assigned)
     else if list_ex (\<lambda>r. r_from r = uid \<and> r_to r = sid \<and> r_child r = Some cid
                           \<and> r_status r = Req_pending) (requests st)
       then Inl (Failure 400 Already_pending_request)
     else if length (trim message) > 500 then Inl (Failure 500 Error_message)
     else
       Inr (st\<lparr> requests := requests st @
                   [\<lparr> r_id = new_id, r_from = uid, r_to = sid, r_child = Some cid,
                      r_status = Req_pending, r_message = trim message \<rparr>],
                 children := save_child (ch\<lparr> specialistRequestStatus := Status_pending \<rparr>)
                               (children st) \<rparr>))))))"

subsection \<open>\<^verbatim>\<open>POST /api/specialists/accept-link-request/:requestId\<close>\<close>

text \<open>
  The handler reads the request, the parent (\<^verbatim>\<open>request.from\<close>) and the specialist; it
  never reads \<^verbatim>\<open>request.child\<close>. A request whose sender is no longer a user makes
  \<^verbatim>\<open>parent.linkedSpecialist\<close> throw, which the handler's \<^verbatim>\<open>catch\<close> turns into a 500.
\<close>

definition accept_link_request :: "store \<Rightarrow> oid \<Rightarrow> oid \<Rightarrow> failure + store" where
  "accept_link_request st uid requestId =
     (case authorize Specialist st uid of
        Inl e \<Rightarrow> Inl e
      | Inr me \<Rightarrow>
     (case find_request (requests st) requestId of
        None \<Rightarrow> Inl (Failure 404 Request_not_found)
      | Some request \<Rightarrow>
     if r_to request \<noteq> uid then Inl (Failure 403 Not_authorized)
     else if r_status request \<noteq> Req_pending then Inl (Failure 400 Request_no_longer_pending)
     else
     (case users st (r_from request) of
        None \<Rightarrow> Inl (Failure 500 Error_message)
      | Some parent \<Rightarrow>
     if (case linkedSpecialist parent of None \<Rightarrow> False | Some s \<Rightarrow> s \<noteq> uid)
       then Inl (Failure 400 Parent_already_linked_to_another_specialist)
     else
       let accepted = request\<lparr> r_status := Req_accepted \<rparr>;
           rs1 = save_request accepted (requests st);
           us1 = update_user uid
                   (\<lambda>u. u\<lparr> linkedParents := addToSet (linkedParents u) (r_from request) \<rparr>)
                   (users st);
           us2 = update_user (r_from request) (\<lambda>u. u\<lparr> linkedSpecialist := Some uid \<rparr>) us1;
           ns = (case us2 uid of
                   None \<Rightarrow> notifications st
                 | Some specialist \<Rightarrow>
                     notifications st @ [Link_accepted (r_from request) (u_name specialist) uid]);
           rs2 = map (\<lambda>r. if r_from r = r_from request \<and> r_status r = Req_pending
                               \<and> r_id r \<noteq> r_id accepted
                            then r\<lparr> r_status := Req_rejected \<rparr> else r) rs1
       in Inr (st\<lparr> requests := rs2, users := us2, notifications := ns \<rparr>))))"

subsection \<open>\<^verbatim>\<open>POST /api/specialists/accept-child/:childId\<close> and \<^verbatim>\<open>reject-child\<close>\<close>

definition accept_child :: "store \<Rightarrow> oid \<Rightarrow> oid \<Rightarrow> failure + store" where
  "accept_child st uid childId =
     (case authorize Specialist st uid of
        Inl e \<Rightarrow> Inl e
      | Inr me \<Rightarrow>
     (case find_child (children st) childId of
        None \<Rightarrow> Inl (Failure 404 Child_not_found)
      | Some ch \<Rightarrow>
     if specialistRequestStatus ch \<noteq> Status_pending
       then Inl (Failure 400 No_pending_request_for_child)
     else
       let ch' = ch\<lparr> assignedSpecialist := Some uid, specialistRequestStatus := Status_approved \<rparr>
       in Inr (st\<lparr> children := save_child ch' (children st),
                    users := update_user uid
                      (\<lambda>u. u\<lparr> assignedChildren := addToSet (assignedChildren u) (c_id ch') \<rparr>)
                      (users st) \<rparr>)))"

definition reject_child :: "store \<Rightarrow> oid \<Rightarrow> oid \<Rightarrow> failure + store" where
  "reject_child st uid childId =
     (case authorize Specialist st uid of
        Inl e \<Rightarrow> Inl e
      | Inr me \<Rightarrow>
     (case find_child (children st) childId of
        None \<Rightarrow> Inl (Failure 404 Child_not_found)
      | Some ch \<Rightarrow>
       Inr (st\<lparr> children :=
                   save_child (ch\<lparr> specialistRequestStatus := Status_rejected \<rparr>) (children st) \<rparr>)))"

subsection \<open>\<^verbatim>\<open>POST /api/children/:id/request-specialist\<close> (\<^verbatim>\<open>src/routes/child.js\<close>)\<close>

definition request_specialist :: "store \<Rightarrow> oid \<Rightarrow> oid \<Rightarrow> failure + store" where
  "request_specialist st uid childId =
     (case authorize Parent st uid of
        Inl e \<Rightarrow> Inl e
      | Inr me \<Rightarrow>
     (case find_child (children st) childId of
        None \<Rightarrow> Inl (Failure 404 Child_not_found)
      | Some ch \<Rightarrow>
     if c_parent ch \<noteq> uid then Inl (Failure 403 Not_authorized)
     else
       Inr (st\<lparr> children :=
                   save_child (ch\<lparr> specialistRequestStatus := Status_pending \<rparr>) (children st) \<rparr>)))"

subsection \<open>\<^verbatim>\<open>POST /api/specialists/link-parent\<close> and \<^verbatim>\<open>DELETE unlink-parent/:parentId\<close>\<close>

definition link_parent :: "store \<Rightarrow> oid \<Rightarrow> oid option \<Rightarrow> failure + store" where
  "link_parent st uid parentId =
     (case authorize Specialist st uid of
        Inl e \<Rightarrow> Inl e
      | Inr specialist \<Rightarrow>
     (case parentId of
        None \<Rightarrow> Inl (Failure 400 Parent_ID_required)
      | Some pid \<Rightarrow>
     (case users st pid of
        None \<Rightarrow> Inl (Failure 404 Parent_not_found)
      | Some parent \<Rightarrow>
     if u_role parent \<noteq> Parent then Inl (Failure 404 Parent_not_found)
     else if pid \<in> set (linkedParents specialist)
       then Inl (Failure 400 Parent_already_linked_to_this_specialist)
     else
       let us1 = update_user uid
                   (\<lambda>u. u\<lparr> linkedParents := addToSet (linkedParents u) pid \<rparr>) (users st);
           us2 = update_user pid (\<lambda>u. u\<lparr> linkedSpecialist := Some uid \<rparr>) us1
       in Inr (st\<lparr> users := us2 \<rparr>))))"

definition unlink_parent :: "store \<Rightarrow> oid \<Rightarrow> oid \<Rightarrow> failure + store" where
  "unlink_parent st uid parentId =
     (case authorize Specialist st uid of
        Inl e \<Rightarrow> Inl e
      | Inr me \<Rightarrow>
       let us1 = update_user uid
                   (\<lambda>u. u\<lparr> linkedParents := pull (linkedParents u) parentId \<rparr>) (users st);
           us2 = update_user parentId (\<lambda>u. u\<lparr> linkedSpecialist := None \<rparr>) us1
       in Inr (st\<lparr> users := us2 \<rparr>))"

subsection \<open>\<^verbatim>\<open>DELETE /api/parents/unlink-specialist\<close>\<close>

definition unlink_specialist :: "store \<Rightarrow> oid \<Rightarrow> failure + store" where
  "unlink_specialist st uid =
     (case authorize Parent st uid of
        Inl e \<Rightarrow> Inl e
      | Inr parent \<Rightarrow>
     (case linkedSpecialist parent of
        None \<Rightarrow> Inl (Failure 400 Not_linked_to_any_specialist)
      | Some specialistId \<Rightarrow>
       let found = filter (\<lambda>c. c_parent c = uid \<and> assignedSpecialist c = Some specialistId)
                     (children st);
           childIds = map c_id found;
           childNames = join '', '' (map c_name found);
           us1 = (users st)(uid \<mapsto> parent\<lparr> linkedSpecialist := None \<rparr>);
           us2 = update_user specialistId
                   (\<lambda>u. u\<lparr> linkedParents := pull (linkedParents u) uid \<rparr>) us1;
           cs' = (if childIds \<noteq> []
                  then map (\<lambda>c. if c_id c \<in> set childIds
                                 then c\<lparr> assignedSpecialist := None,
                                         specialistRequestStatus := Status_none \<rparr>
                                 else c) (children st)
                  else children st);
           us3 = (if childIds \<noteq> []
                  then update_user specialistId
                         (\<lambda>u. u\<lparr> assignedChildren := pullAll (assignedChildren u) childIds \<rparr>) us2
                  else us2);
           n = Link_cancelled specialistId (u_name parent)
                 (if childIds \<noteq> []
                  then Some (if childNames \<noteq> [] then Names childNames else Without_names)
                  else None)
                 uid childIds
       in Inr (st\<lparr> users := us3, children := cs', notifications := notifications st @ [n] \<rparr>)))"

section \<open>Content routes\<close>

text \<open>
  The three routes that add an item (\<^verbatim>\<open>POST /api/words\<close> in
  \<^verbatim>\<open>src/routes/words.js\<close>; \<^verbatim>\<open>POST /api/content/add\<close> and
  \<^verbatim>\<open>POST /api/specialist/content/add\<close> in \<^verbatim>\<open>src/unnamed/part_005\<close>) and the three
  that delete one. A handler returns
  the store it leaves behind together with its answer, because \<^verbatim>\<open>getOrCreateContentDoc\<close>
  is an upsert: the content document it creates is stored even when the handler fails
  afterwards. Fresh ObjectIds and the clock are parameters. The request's \<^verbatim>\<open>text\<close> is a
  string; the empty string stands for a missing one as well (\<^verbatim>\<open>!text\<close> holds for both).
\<close>

definition is_content_of :: "oid \<Rightarrow> exercise \<Rightarrow> bool" where
  "is_content_of cid e = (e_child e = cid \<and> e_kind e = Content)"

definition save_exercise :: "exercise \<Rightarrow> exercise list \<Rightarrow> exercise list" where
  "save_exercise d es = map (\<lambda>e. if e_id e = e_id d then d else e) es"

definition getOrCreateContentDoc :: "store \<Rightarrow> oid \<Rightarrow> oid \<Rightarrow> store \<times> exercise" where
  "getOrCreateContentDoc st childId new_doc_id =
     (case find (is_content_of childId) (exercises st) of
        Some d \<Rightarrow> (st, d)
      | None \<Rightarrow>
          let d = \<lparr> e_id = new_doc_id, e_child = childId, e_kind = Content,
                    contentWords = [], contentLetters = [] \<rparr>
          in (st\<lparr> exercises := exercises st @ [d] \<rparr>, d))"

definition targetArr :: "content_type \<Rightarrow> exercise \<Rightarrow> content_item list" where
  "targetArr t d = (if t = Word then contentWords d else contentLetters d)"

definition push_item :: "content_type \<Rightarrow> content_item \<Rightarrow> exercise \<Rightarrow> exercise" where
  "push_item t i d =
     (if t = Word then d\<lparr> contentWords := contentWords d @ [i] \<rparr>
      else d\<lparr> contentLetters := contentLetters d @ [i] \<rparr>)"

text \<open>
  The schema of an item, checked when the document is saved: \<^verbatim>\<open>text\<close> is required (an
  empty string does not pass) and \<^verbatim>\<open>difficulty\<close> is one of the enum;
  \<^verbatim>\<open>difficulty || 'easy'\<close> supplies the default.
\<close>

definition new_item ::
  "jsstring \<Rightarrow> difficulty_input \<Rightarrow> string \<Rightarrow> oid \<Rightarrow> oid \<Rightarrow> int \<Rightarrow> content_item option" where
  "new_item trimmed difficulty img uid new_item_id now =
     (if trimmed = [] then None
      else case difficulty of
             Other_difficulty \<Rightarrow> None
           | No_difficulty \<Rightarrow>
               Some \<lparr> i_id = new_item_id, i_text = trimmed, i_difficulty = Easy,
                      i_image = img, i_createdBy = uid, i_createdAt = now \<rparr>
           | Difficulty d \<Rightarrow>
               Some \<lparr> i_id = new_item_id, i_text = trimmed, i_difficulty = d,
                      i_image = img, i_createdBy = uid, i_createdAt = now \<rparr>)"

text \<open>
  The block the three add routes share, from \<^verbatim>\<open>const trimmed = text.trim()\<close> to
  \<^verbatim>\<open>await doc.save()\<close>; \<open>err\<close> is the message of the route's \<^verbatim>\<open>catch\<close>.
\<close>

definition add_item ::
  "store \<Rightarrow> oid \<Rightarrow> oid \<Rightarrow> content_type \<Rightarrow> jsstring \<Rightarrow> difficulty_input \<Rightarrow> string \<Rightarrow>
   msg \<Rightarrow> oid \<Rightarrow> oid \<Rightarrow> int \<Rightarrow> store \<times> (failure + content_item)" where
  "add_item st uid childId t text difficulty img err new_doc_id new_item_id now =
     (let trimmed = trim text;
          got = getOrCreateContentDoc st childId new_doc_id;
          st1 = fst got;
          doc = snd got
      in if list_ex (\<lambda>i. i_text i = trimmed) (targetArr t doc)
         then (st1, Inl (Failure 400 (Already_exists t)))
         else case new_item trimmed difficulty img uid new_item_id now of
                None \<Rightarrow> (st1, Inl (Failure 500 err))
              | Some created \<Rightarrow>
                  (st1\<lparr> exercises := save_exercise (push_item t created doc) (exercises st1) \<rparr>,
                   Inr created))"

subsection \<open>\<^verbatim>\<open>POST /api/words\<close>\<close>

definition words_post ::
  "store \<Rightarrow> oid \<Rightarrow> jsstring \<Rightarrow> type_input \<Rightarrow> difficulty_input \<Rightarrow> oid option \<Rightarrow> string option \<Rightarrow>
   oid \<Rightarrow> oid \<Rightarrow> int \<Rightarrow> store \<times> (failure + content_item)" where
  "words_post st uid text contentType difficulty childId upload new_doc_id new_item_id now =
     (case protect st uid of
        Inl e \<Rightarrow> (st, Inl e)
      | Inr me \<Rightarrow>
     if text = [] then (st, Inl (Failure 400 Text_and_child_required))
     else
     (case childId of
        None \<Rightarrow> (st, Inl (Failure 400 Text_and_child_required))
      | Some cid \<Rightarrow>
       let imagePath = (case upload of None \<Rightarrow> ''default-word.png''
                        | Some filename \<Rightarrow> ''/uploads/'' @ filename)
       in case contentType of
            Other_type \<Rightarrow> (st, Inl (Failure 400 Invalid_contentType))
          | No_type \<Rightarrow>
              add_item st uid cid Word text difficulty imagePath Error_message
                new_doc_id new_item_id now
          | Type t \<Rightarrow>
              add_item st uid cid t text difficulty imagePath Error_message
                new_doc_id new_item_id now))"

subsection \<open>\<^verbatim>\<open>POST /api/content/add\<close>\<close>

definition content_add ::
  "store \<Rightarrow> oid \<Rightarrow> jsstring \<Rightarrow> type_input \<Rightarrow> difficulty_input \<Rightarrow> oid option \<Rightarrow>
   oid \<Rightarrow> oid \<Rightarrow> int \<Rightarrow> store \<times> (failure + content_item)" where
  "content_add st uid text contentType difficulty childId new_doc_id new_item_id now =
     (case protect st uid of
        Inl e \<Rightarrow> (st, Inl e)
      | Inr me \<Rightarrow>
     if text = [] \<or> contentType = No_type \<or> childId = None
       then (st, Inl (Failure 400 Text_type_and_child_required))
     else
     (case contentType of
        No_type \<Rightarrow> (st, Inl (Failure 400 Text_type_and_child_required))
      | Other_type \<Rightarrow> (st, Inl (Failure 400 Content_type_must_be_word_or_letter))
      | Type t \<Rightarrow>
     (case childId of
        None \<Rightarrow> (st, Inl (Failure 400 Text_type_and_child_required))
      | Some cid \<Rightarrow>
     if difficulty = Other_difficulty
       then (st, Inl (Failure 400 Difficulty_must_be_easy_medium_hard))
     else if t = Letter \<and> length text > 1
       then (st, Inl (Failure 400 Letter_must_be_single_character))
     else if t = Word \<and> length text > 20
       then (st, Inl (Failure 400 Word_max_20))
     else
       add_item st uid cid t text difficulty ''default-word.png'' Error_adding_content
         new_doc_id new_item_id now)))"

subsection \<open>\<^verbatim>\<open>POST /api/specialist/content/add\<close>\<close>

text \<open>
  \<^verbatim>\<open>child.assignedSpecialist.toString()\<close> throws when the child has no specialist; the
  route's \<^verbatim>\<open>catch\<close> answers 500.
\<close>

definition specialist_content_add ::
  "store \<Rightarrow> oid \<Rightarrow> jsstring \<Rightarrow> type_input \<Rightarrow> difficulty_input \<Rightarrow> oid option \<Rightarrow>
   oid \<Rightarrow> oid \<Rightarrow> int \<Rightarrow> store \<times> (failure + content_item)" where
  "specialist_content_add st uid text contentType difficulty childId new_doc_id new_item_id now =
     (case protect st uid of
        Inl e \<Rightarrow> (st, Inl e)
      | Inr me \<Rightarrow>
     if text = [] \<or> contentType = No_type \<or> childId = None
       then (st, Inl (Failure 400 Text_type_and_child_required))
     else
     (case contentType of
        No_type \<Rightarrow> (st, Inl (Failure 400 Text_type_and_child_required))
      | Other_type \<Rightarrow> (st, Inl (Failure 400 Content_type_must_be_word_or_letter))
      | Type t \<Rightarrow>
     (case childId of
        None \<Rightarrow> (st, Inl (Failure 400 Text_type_and_child_required))
      | Some cid \<Rightarrow>
     (case find_child (children st) cid of
        None \<Rightarrow> (st, Inl (Failure 403 Not_authorized_to_add_content))
      | Some ch \<Rightarrow>
     (case assignedSpecialist ch of
        None \<Rightarrow> (st, Inl (Failure 500 Error_adding_content))
      | Some s \<Rightarrow>
     if s \<noteq> uid then (st, Inl (Failure 403 Not_authorized_to_add_content))
     else if difficulty = Other_difficulty
       then (st, Inl (Failure 400 Difficulty_must_be_easy_medium_hard))
     else if t = Letter \<and> length text > 2
       then (st, Inl (Failure 400 Letter_with_vowel_max_2))
     else if t = Word \<and> length text > 20
       then (st, Inl (Failure 400 Word_max_20))
     else
       add_item st uid cid t text difficulty ''default-word.png'' Error_adding_content
         new_doc_id new_item_id now)))))"

subsection \<open>Deleting an item\<close>

text \<open>
  The document is found by the nested identifier, in either sub-collection;
  \<^verbatim>\<open>deleteOne\<close> on a subdocument pulls the entries with that identifier from its array.
\<close>

definition has_item :: "oid \<Rightarrow> exercise \<Rightarrow> bool" where
  "has_item contentId e =
     (e_kind e = Content \<and>
      (list_ex (\<lambda>i. i_id i = contentId) (contentWords e) \<or>
       list_ex (\<lambda>i. i_id i = contentId) (contentLetters e)))"

definition delete_item :: "oid \<Rightarrow> exercise \<Rightarrow> exercise" where
  "delete_item contentId d =
     d\<lparr> contentWords := filter (\<lambda>i. i_id i \<noteq> contentId) (contentWords d),
        contentLetters := filter (\<lambda>i. i_id i \<noteq> contentId) (contentLetters d) \<rparr>"

text \<open>\<^verbatim>\<open>DELETE /api/words/:id\<close>; the answer carries the child of the document.\<close>

definition words_delete :: "store \<Rightarrow> oid \<Rightarrow> oid \<Rightarrow> store \<times> (failure + oid)" where
  "words_delete st uid contentId =
     (case protect st uid of
        Inl e \<Rightarrow> (st, Inl e)
      | Inr me \<Rightarrow>
     (case find (has_item contentId) (exercises st) of
        None \<Rightarrow> (st, Inl (Failure 404 Word_not_found))
      | Some doc \<Rightarrow>
          (st\<lparr> exercises := save_exercise (delete_item contentId doc) (exercises st) \<rparr>,
           Inr (e_child doc))))"

text \<open>\<^verbatim>\<open>DELETE /api/content/delete/:contentId\<close>.\<close>

definition content_delete :: "store \<Rightarrow> oid \<Rightarrow> oid \<Rightarrow> store \<times> (failure + unit)" where
  "content_delete st uid contentId =
     (case protect st uid of
        Inl e \<Rightarrow> (st, Inl e)
      | Inr me \<Rightarrow>
     (case find (has_item contentId) (exercises st) of
        None \<Rightarrow> (st, Inl (Failure 404 Content_not_found))
      | Some doc \<Rightarrow>
          (st\<lparr> exercises := save_exercise (delete_item contentId doc) (exercises st) \<rparr>,
           Inr ())))"

text \<open>\<^verbatim>\<open>POST /api/specialist/content/delete/:contentId\<close>.\<close>

definition specialist_content_delete :: "store \<Rightarrow> oid \<Rightarrow> oid \<Rightarrow> store \<times> (failure + unit)" where
  "specialist_content_delete st uid contentId =
     (case protect st uid of
        Inl e \<Rightarrow> (st, Inl e)
      | Inr me \<Rightarrow>
     (case find (has_item contentId) (exercises st) of
        None \<Rightarrow> (st, Inl (Failure 404 Content_not_found))
      | Some doc \<Rightarrow>
     (case find_child (children st) (e_child doc) of
        None \<Rightarrow> (st, Inl (Failure 403 Not_authorized_to_delete_content))
      | Some ch \<Rightarrow>
     (case assignedSpecialist ch of
        None \<Rightarrow> (st, Inl (Failure 500 Error_deleting_content))
      | Some s \<Rightarrow>
     if s \<noteq> uid then (st, Inl (Failure 403 Not_authorized_to_delete_content))
     else
       (st\<lparr> exercises := save_exercise (delete_item contentId doc) (exercises st) \<rparr>,
        Inr ())))))"


section \<open>Progress routes\<close>

subsection \<open>\<^verbatim>\<open>progressSchema.methods.updateOverallStats\<close>\<close>

text \<open>
  \<^verbatim>\<open>x || 0\<close> on an optional number: \<^verbatim>\<open>undefined\<close>, \<^verbatim>\<open>null\<close>, \<^verbatim>\<open>NaN\<close> and zero are falsy.
\<close>

definition or0 :: "number option \<Rightarrow> number" where
  "or0 x = (case x of None \<Rightarrow> Finite 0 | Some Not_a_number \<Rightarrow> Finite 0 | Some v \<Rightarrow> v)"

text \<open>
  The four \<^verbatim>\<open>reduce\<close> calls add from the left, starting at 0. The length of the array
  is an integer below \<open>2 ^ 32\<close>, which is a double.
\<close>

definition updateOverallStats :: "progress \<Rightarrow> progress" where
  "updateOverallStats this =
     (let n = Finite (of_nat (length (sessions this)));
          playTime = foldl (\<lambda>sum s. js_add sum (or0 (s_duration s))) (Finite 0) (sessions this);
          attempts =
            foldl (\<lambda>sum s. js_add sum (or0 (s_totalAttempts s))) (Finite 0) (sessions this);
          successfulAttempts =
            foldl (\<lambda>sum s. js_add sum (or0 (s_successfulAttempts s))) (Finite 0)
              (sessions this);
          totalScore =
            foldl (\<lambda>sum s. js_add sum (or0 (s_averageScore s))) (Finite 0) (sessions this)
      in this\<lparr> overallStats :=
           \<lparr> totalSessions = n,
              totalPlayTime = playTime,
              totalAttempts = attempts,
              successRate = (if js_positive attempts
                             then js_mul (js_div successfulAttempts attempts) (Finite 100)
                             else Finite 0),
              averageScore = (if length (sessions this) > 0 then js_div totalScore n
                              else Finite 0) \<rparr> \<rparr>)"

subsection \<open>\<^verbatim>\<open>POST /api/progress/session\<close> and \<^verbatim>\<open>POST /api/progress/sync\<close>\<close>

text \<open>The progress routes are the second router of \<^verbatim>\<open>src/routes/child.js\<close>.\<close>

text \<open>
  These two routes are modelled with the failures of the database calls they await:
  \<open>fails c\<close> tells whether call \<open>c\<close> rejects. A rejected call inside the route's
  \<^verbatim>\<open>try\<close> answers 500 with the error's message; a rejected call inside the inner
  \<^verbatim>\<open>try\<close> around the notification is logged and skipped. The routes are registered
  with \<^verbatim>\<open>protect\<close> only and never read \<^verbatim>\<open>req.user\<close>. The body's \<^verbatim>\<open>childId\<close> is an
  ObjectId and \<^verbatim>\<open>sessionData\<close> a session; \<^verbatim>\<open>sessions\<close> may be missing, and then
  \<^verbatim>\<open>sessions.forEach\<close> throws. The broadcast on the socket is not part of the store.

  \<^verbatim>\<open>save\<close> rejects also when Mongoose refuses the document, as it does for a statistic
  that is \<^verbatim>\<open>NaN\<close>; that is one of the rejections of \<open>Save_progress\<close>.

  Pushing a plain object onto \<^verbatim>\<open>progress.sessions\<close> makes it a subdocument of the session
  schema, which fills in the defaults of the fields that are absent: the clock for
  \<^verbatim>\<open>sessionDate\<close> and for the \<^verbatim>\<open>timestamp\<close> of an attempt, 0 for the four counters
  \<^verbatim>\<open>totalAttempts\<close>, \<^verbatim>\<open>successfulAttempts\<close>, \<^verbatim>\<open>failedAttempts\<close> and \<^verbatim>\<open>averageScore\<close>;
  \<^verbatim>\<open>duration\<close> has no default. In a request body \<open>None\<close> is a field that was not sent.
  One reading of the clock, \<open>now\<close>, serves the whole request.
\<close>

definition or_default :: "'a \<Rightarrow> 'a option \<Rightarrow> 'a option" where
  "or_default d x = (case x of None \<Rightarrow> Some d | Some v \<Rightarrow> Some v)"

definition attempt_defaults :: "int \<Rightarrow> attempt \<Rightarrow> attempt" where
  "attempt_defaults now a = a\<lparr> a_timestamp := or_default now (a_timestamp a) \<rparr>"

definition session_defaults :: "int \<Rightarrow> session \<Rightarrow> session" where
  "session_defaults now s =
     \<lparr> s_sessionDate = or_default now (s_sessionDate s),
       s_duration = s_duration s,
       s_totalAttempts = or_default (Finite 0) (s_totalAttempts s),
       s_successfulAttempts = or_default (Finite 0) (s_successfulAttempts s),
       s_failedAttempts = or_default (Finite 0) (s_failedAttempts s),
       s_averageScore = or_default (Finite 0) (s_averageScore s),
       s_attempts = map (attempt_defaults now) (s_attempts s) \<rparr>"

datatype db_call =
    Find_progress | Create_progress | Save_progress | Find_child | Create_notification

definition find_progress :: "progress list \<Rightarrow> oid \<Rightarrow> progress option" where
  "find_progress ps childId = find (\<lambda>p. p_child p = childId) ps"

definition save_progress :: "progress \<Rightarrow> progress list \<Rightarrow> progress list" where
  "save_progress p ps = map (\<lambda>q. if p_id q = p_id p then p else q) ps"

definition new_progress :: "oid \<Rightarrow> oid \<Rightarrow> int \<Rightarrow> progress" where
  "new_progress new_id childId now =
     \<lparr> p_id = new_id, p_child = childId, sessions = [],
       overallStats = \<lparr> totalSessions = Finite 0, totalPlayTime = Finite 0,
                        totalAttempts = Finite 0, successRate = Finite 0,
                        averageScore = Finite 0 \<rparr>,
       lastSyncDate = now \<rparr>"

text \<open>\<^verbatim>\<open>Progress.findOne({ child })\<close> followed by \<^verbatim>\<open>Progress.create({ child })\<close> when absent.\<close>

definition find_or_create_progress ::
  "(db_call \<Rightarrow> bool) \<Rightarrow> store \<Rightarrow> oid \<Rightarrow> oid \<Rightarrow> int \<Rightarrow> store \<times> (failure + progress)" where
  "find_or_create_progress fails st childId new_id now =
     (if fails Find_progress then (st, Inl (Failure 500 Error_message))
      else case find_progress (progress st) childId of
             Some p \<Rightarrow> (st, Inr p)
           | None \<Rightarrow>
               if fails Create_progress then (st, Inl (Failure 500 Error_message))
               else (st\<lparr> progress := progress st @ [new_progress new_id childId now] \<rparr>,
                     Inr (new_progress new_id childId now)))"

definition progress_session ::
  "(db_call \<Rightarrow> bool) \<Rightarrow> store \<Rightarrow> oid \<Rightarrow> oid \<Rightarrow> session \<Rightarrow> oid \<Rightarrow> int \<Rightarrow>
   store \<times> (failure + progress)" where
  "progress_session fails st uid childId sessionData new_id now =
     (case protect st uid of
        Inl e \<Rightarrow> (st, Inl e)
      | Inr me \<Rightarrow>
     (case find_or_create_progress fails st childId new_id now of
        (st1, Inl e) \<Rightarrow> (st1, Inl e)
      | (st1, Inr p) \<Rightarrow>
          let p' = (updateOverallStats
                      (p\<lparr> sessions := sessions p @ [session_defaults now sessionData] \<rparr>))
                     \<lparr> lastSyncDate := now \<rparr>
          in if fails Save_progress then (st1, Inl (Failure 500 Error_message))
             else (st1\<lparr> progress := save_progress p' (progress st1) \<rparr>, Inr p')))"

definition progress_sync ::
  "(db_call \<Rightarrow> bool) \<Rightarrow> store \<Rightarrow> oid \<Rightarrow> oid \<Rightarrow> session list option \<Rightarrow> oid \<Rightarrow> int \<Rightarrow>
   store \<times> (failure + progress)" where
  "progress_sync fails st uid childId body_sessions new_id now =
     (case protect st uid of
        Inl e \<Rightarrow> (st, Inl e)
      | Inr me \<Rightarrow>
     (case find_or_create_progress fails st childId new_id now of
        (st1, Inl e) \<Rightarrow> (st1, Inl e)
      | (st1, Inr p) \<Rightarrow>
     (case body_sessions of
        None \<Rightarrow> (st1, Inl (Failure 500 Error_message))
      | Some new_sessions \<Rightarrow>
          let p' = (updateOverallStats
                      (p\<lparr> sessions := sessions p @ map (session_defaults now) new_sessions \<rparr>))
                     \<lparr> lastSyncDate := now \<rparr>
          in if fails Save_progress then (st1, Inl (Failure 500 Error_message))
             else
               let st2 = st1\<lparr> progress := save_progress p' (progress st1) \<rparr>;
                   st3 = (if fails Find_child then st2
                          else case find_child (children st2) childId of
                                 None \<Rightarrow> st2
                               | Some ch \<Rightarrow>
                                   if fails Create_notification then st2
                                   else st2\<lparr> notifications := notifications st2 @
                                          [Session_completed (c_parent ch) (c_name ch)
                                             (c_id ch) (p_id p')] \<rparr>)
               in (st3, Inr p'))))"

subsection \<open>\<^verbatim>\<open>GET /api/progress/attempts/:childId\<close>\<close>

text \<open>
  \<^verbatim>\<open>parseInt(s, 10)\<close>: leading white space is skipped, a sign is read, then the longest
  run of decimal digits; without a digit the result is \<^verbatim>\<open>NaN\<close>. \<^verbatim>\<open>req.query.limit\<close> is a
  string or absent (\<^verbatim>\<open>undefined\<close> has no digit). The value is a double: from
  \<open>2 ^ 1024 - 2 ^ 970\<close> on it rounds to an infinity. A smaller value is kept exact here;
  the double nearest to it lies on the same side of 1 and of 200, so the clamp below
  gives the same limit.
\<close>

datatype parsed = NaN | Infinity | Minus_infinity | Num int

definition is_digit :: "nat \<Rightarrow> bool" where
  "is_digit c = (48 \<le> c \<and> c \<le> 57)"

definition digits_value :: "nat list \<Rightarrow> int" where
  "digits_value ds = foldl (\<lambda>acc d. 10 * acc + (int d - 48)) 0 ds"

definition to_number :: "bool \<Rightarrow> int \<Rightarrow> parsed" where
  "to_number negative n =
     (if n \<ge> 2 ^ 1024 - 2 ^ 970 then (if negative then Minus_infinity else Infinity)
      else Num (if negative then - n else n))"

definition parseInt10 :: "jsstring option \<Rightarrow> parsed" where
  "parseInt10 input =
     (case input of
        None \<Rightarrow> NaN
      | Some s \<Rightarrow>
          let t = dropWhile is_whitespace s;
              negative = (t \<noteq> [] \<and> hd t = 45);
              body = (if t \<noteq> [] \<and> (hd t = 45 \<or> hd t = 43) then tl t else t);
              ds = takeWhile is_digit body
          in if ds = [] then NaN else to_number negative (digits_value ds))"

text \<open>
  \<^verbatim>\<open>Number.isFinite(rawLimit) ? Math.min(Math.max(rawLimit, 1), 200) : 50\<close>
\<close>

definition attempts_limit :: "jsstring option \<Rightarrow> nat" where
  "attempts_limit query_limit =
     (case parseInt10 query_limit of
        Num rawLimit \<Rightarrow> nat (min (max rawLimit 1) 200)
      | _ \<Rightarrow> 50)"

text \<open>
  In words: a limit begins with an integer when it is present and, after its leading
  white space and one optional sign, a decimal digit follows.
\<close>

definition begins_with_integer :: "jsstring option \<Rightarrow> bool" where
  "begins_with_integer input =
     (case input of
        None \<Rightarrow> False
      | Some s \<Rightarrow>
          let t = dropWhile is_whitespace s;
              body = (if t \<noteq> [] \<and> (hd t = 45 \<or> hd t = 43) then tl t else t)
          in body \<noteq> [] \<and> is_digit (hd body))"

text \<open>The flattened attempt of the answer and its sort key.\<close>

record attempt_view =
  v_sessionDate :: "int option"
  v_timestamp :: "int option"
  v_target :: string
  v_letter :: "string option"
  v_word :: "string option"
  v_vowel :: "string option"
  v_success :: bool
  v_score :: "number option"

text \<open>\<^verbatim>\<open>a || b\<close> on optional strings: the empty string is falsy.\<close>

definition or_string :: "string option \<Rightarrow> string option \<Rightarrow> string option" where
  "or_string a b = (case a of None \<Rightarrow> b | Some s \<Rightarrow> if s = [] then b else Some s)"

definition view_attempt :: "int option \<Rightarrow> attempt \<Rightarrow> attempt_view" where
  "view_attempt sessionDate a =
     \<lparr> v_sessionDate = sessionDate,
       v_timestamp = a_timestamp a,
       v_target = (case or_string (or_string (a_word a) (a_letter a)) (a_vowel a) of
                     None \<Rightarrow> [] | Some s \<Rightarrow> s),
       v_letter = a_letter a,
       v_word = a_word a,
       v_vowel = a_vowel a,
       v_success = (a_success a = Some True),
       v_score = a_score a \<rparr>"

definition time_of :: "attempt_view \<Rightarrow> int" where
  "time_of v = (case v_timestamp v of None \<Rightarrow> 0 | Some t \<Rightarrow> t)"

definition flatten_attempts :: "session list \<Rightarrow> attempt_view list" where
  "flatten_attempts ss =
     concat (map (\<lambda>s. map (view_attempt (s_sessionDate s)) (s_attempts s)) ss)"

text \<open>
  The comparator \<^verbatim>\<open>tb - ta\<close> orders by descending time; \<^verbatim>\<open>Array.prototype.sort\<close> is
  stable, as is insertion by key.
\<close>

definition progress_attempts ::
  "store \<Rightarrow> oid \<Rightarrow> oid \<Rightarrow> jsstring option \<Rightarrow> failure + attempt_view list" where
  "progress_attempts st uid childId query_limit =
     (case protect st uid of
        Inl e \<Rightarrow> Inl e
      | Inr me \<Rightarrow>
     (case find_child (children st) childId of
        None \<Rightarrow> Inl (Failure 404 Child_not_found)
      | Some ch \<Rightarrow>
     if u_role me = Parent \<and> c_parent ch \<noteq> uid then Inl (Failure 403 Not_authorized)
     else if u_role me = Specialist \<and>
             (case assignedSpecialist ch of None \<Rightarrow> True | Some s \<Rightarrow> s \<noteq> uid)
       then Inl (Failure 403 Not_authorized)
     else
       let limit = attempts_limit query_limit
       in case find_progress (progress st) childId of
            None \<Rightarrow> Inr []
          | Some p \<Rightarrow>
              if sessions p = [] then Inr []
              else Inr (take limit
                         (sort_key (\<lambda>v. - time_of v) (flatten_attempts (sessions p))))))"


section \<open>The rollup of a progress document\<close>

text \<open>
  \<open>js_sum\<close> adds Numbers from the left, starting at 0, rounding after each addition.
  \<open>fold_stats\<close> spells out the statistics of a list of sessions: their number; the sums
  of the durations, of \<^verbatim>\<open>totalAttempts\<close> and of \<^verbatim>\<open>averageScore\<close>, a falsy value counting
  as 0; the success rate, which is the sum of \<^verbatim>\<open>successfulAttempts\<close> divided by the total,
  then multiplied by 100, each rounded, when the total is greater than 0, and 0
  otherwise; and the sum of \<^verbatim>\<open>averageScore\<close> divided by the number of sessions, 0
  without sessions.
\<close>

definition js_sum :: "number list \<Rightarrow> number" where
  "js_sum xs = foldl js_add (Finite 0) xs"

definition fold_stats :: "session list \<Rightarrow> overall_stats" where
  "fold_stats ss =
     \<lparr> totalSessions = Finite (of_nat (length ss)),
       totalPlayTime = js_sum (map (\<lambda>s. or0 (s_duration s)) ss),
       totalAttempts = js_sum (map (\<lambda>s. or0 (s_totalAttempts s)) ss),
       successRate =
         (if js_positive (js_sum (map (\<lambda>s. or0 (s_totalAttempts s)) ss))
          then js_mul
                 (js_div (js_sum (map (\<lambda>s. or0 (s_successfulAttempts s)) ss))
                         (js_sum (map (\<lambda>s. or0 (s_totalAttempts s)) ss)))
                 (Finite 100)
          else Finite 0),
       averageScore =
         (if ss = [] then Finite 0
          else js_div (js_sum (map (\<lambda>s. or0 (s_averageScore s)) ss))
                      (Finite (of_nat (length ss)))) \<rparr>"

text \<open>
  The success rate in the words of the specification, in exact arithmetic:
  \<open>100 * successful / attempts\<close>, and 0 when there are no attempts.
\<close>

definition stated_success_rate :: "rat \<Rightarrow> rat \<Rightarrow> rat" where
  "stated_success_rate successful attempts =
     (if attempts = 0 then 0 else 100 * successful / attempts)"

text \<open>
  A counter that holds a whole number, an absent or falsy one counting as 0, and the
  number it holds.
\<close>

definition count_of :: "number option \<Rightarrow> nat" where
  "count_of x = (case x of Some (Finite r) \<Rightarrow> nat \<lfloor>r\<rfloor> | _ \<Rightarrow> 0)"

definition is_count :: "number option \<Rightarrow> bool" where
  "is_count x = (or0 x = Finite (of_nat (count_of x)))"

section \<open>The invariant of the content documents\<close>

text \<open>
  Within one sub-collection every stored text is its own trimmed form and no two items
  have the same text.
\<close>

definition texts_ok :: "content_item list \<Rightarrow> bool" where
  "texts_ok items =
     (list_all (\<lambda>i. trim (i_text i) = i_text i) items \<and>
      distinct (map i_text items))"

definition content_invariant :: "store \<Rightarrow> bool" where
  "content_invariant st =
     list_all (\<lambda>e. texts_ok (contentWords e) \<and> texts_ok (contentLetters e)) (exercises st)"

section \<open>The two linkage invariants\<close>

text \<open>
  A child has an assigned specialist exactly when its request status is approved; and
  parent \<open>P\<close> names specialist \<open>S\<close> as \<^verbatim>\<open>linkedSpecialist\<close> exactly when \<open>S\<close> lists \<open>P\<close>
  among its \<^verbatim>\<open>linkedParents\<close>.
\<close>

definition assignment_invariant :: "child \<Rightarrow> bool" where
  "assignment_invariant c =
     ((assignedSpecialist c \<noteq> None) = (specialistRequestStatus c = Status_approved))"

definition linked_ok :: "store \<Rightarrow> oid \<Rightarrow> oid \<Rightarrow> bool" where
  "linked_ok st P S =
     ((case users st P of None \<Rightarrow> False | Some p \<Rightarrow> linkedSpecialist p = Some S) =
      (case users st S of None \<Rightarrow> False | Some s \<Rightarrow> P \<in> set (linkedParents s)))"

section \<open>Example stores\<close>

text \<open>
  One parent (user 1), one specialist (user 2) and the parent's child (child 10), first
  with nothing requested, then after the parent's link request 100 has been sent.
\<close>

definition demo_parent :: user where
  "demo_parent = \<lparr> u_name = ''Amal'', u_role = Parent, linkedSpecialist = None,
                    linkedParents = [], assignedChildren = [] \<rparr>"

definition demo_specialist :: user where
  "demo_specialist = \<lparr> u_name = ''Huda'', u_role = Specialist, linkedSpecialist = None,
                        linkedParents = [], assignedChildren = [] \<rparr>"

definition demo_child :: child where
  "demo_child = \<lparr> c_id = 10, c_name = ''Sami'', c_parent = 1, assignedSpecialist = None,
                   specialistRequestStatus = Status_none \<rparr>"

definition demo_request :: link_request where
  "demo_request = \<lparr> r_id = 100, r_from = 1, r_to = 2, r_child = Some 10,
                     r_status = Req_pending, r_message = [] \<rparr>"

definition store0 :: store where
  "store0 = \<lparr> users = [1 \<mapsto> demo_parent, 2 \<mapsto> demo_specialist],
               children = [demo_child], requests = [], notifications = [],
               exercises = [], progress = [] \<rparr>"

definition store1 :: store where
  "store1 = \<lparr> users = [1 \<mapsto> demo_parent, 2 \<mapsto> demo_specialist],
               children = [demo_child\<lparr> specialistRequestStatus := Status_pending \<rparr>],
               requests = [demo_request], notifications = [],
               exercises = [], progress = [] \<rparr>"

text \<open>
  Further stores: the child approved and assigned to specialist 2; the parent linked to
  specialist 2 beside a second specialist 3; and the parent linked to specialist 2 with
  two children, both assigned to 2.
\<close>

definition store2 :: store where
  "store2 = \<lparr> users = [1 \<mapsto> demo_parent,
                        2 \<mapsto> demo_specialist\<lparr> assignedChildren := [10] \<rparr>],
               children = [demo_child\<lparr> assignedSpecialist := Some 2,
                                        specialistRequestStatus := Status_approved \<rparr>],
               requests = [], notifications = [],
               exercises = [], progress = [] \<rparr>"

definition store3 :: store where
  "store3 = \<lparr> users = [1 \<mapsto> demo_parent\<lparr> linkedSpecialist := Some 2 \<rparr>,
                        2 \<mapsto> demo_specialist\<lparr> linkedParents := [1] \<rparr>,
                        3 \<mapsto> demo_specialist\<lparr> u_name := ''Rima'' \<rparr>],
               children = [], requests = [], notifications = [],
               exercises = [], progress = [] \<rparr>"

definition store4 :: store where
  "store4 = \<lparr> users = [1 \<mapsto> demo_parent\<lparr> linkedSpecialist := Some 2 \<rparr>,
                        2 \<mapsto> demo_specialist\<lparr> linkedParents := [1], assignedChildren := [10, 11] \<rparr>],
               children = [demo_child\<lparr> assignedSpecialist := Some 2,
                                        specialistRequestStatus := Status_approved \<rparr>,
                           \<lparr> c_id = 11, c_name = ''Lina'', c_parent = 1,
                              assignedSpecialist = Some 2,
                              specialistRequestStatus = Status_approved \<rparr>],
               requests = [], notifications = [],
               exercises = [], progress = [] \<rparr>"

text \<open>
  A store in which child 10, not assigned to any specialist, has one content word.
\<close>

definition apple :: jsstring where
  "apple = [1578, 1601, 1575, 1581, 1577]"

definition apple_item :: content_item where
  "apple_item = \<lparr> i_id = 500, i_text = apple, i_difficulty = Easy,
                   i_image = ''default-word.png'', i_createdBy = 2, i_createdAt = 0 \<rparr>"

definition apple_doc :: exercise where
  "apple_doc = \<lparr> e_id = 50, e_child = 10, e_kind = Content,
                  contentWords = [apple_item], contentLetters = [] \<rparr>"

definition store6 :: store where
  "store6 = \<lparr> users = [1 \<mapsto> demo_parent, 2 \<mapsto> demo_specialist],
               children = [demo_child], requests = [], notifications = [],
               exercises = [apple_doc], progress = [] \<rparr>"

text \<open>A word of 21 code units.\<close>

definition long_word :: jsstring where
  "long_word = [97, 97, 97, 97, 97, 97, 97, 97, 97, 97, 97, 97, 97, 97, 97, 97, 97, 97,
                 97, 97, 97]"

text \<open>
  For the progress routes: a database whose calls all succeed; a session that reports
  57 successful attempts out of 100; a session whose counters are negative (the schema
  types them as \<^verbatim>\<open>Number\<close>, with no minimum); a session that carries ten attempts, seven
  of them successful, and none of the counters; a session with two attempts; and a store
  in which child 10 has a progress document with that session.
\<close>

definition no_faults :: "db_call \<Rightarrow> bool" where
  "no_faults c = False"

definition quiz_session :: session where
  "quiz_session = \<lparr> s_sessionDate = Some 0, s_duration = Some (Finite 5),
                     s_totalAttempts = Some (Finite 100),
                     s_successfulAttempts = Some (Finite 57),
                     s_failedAttempts = Some (Finite 43),
                     s_averageScore = Some (Finite 80), s_attempts = [] \<rparr>"

definition refund_session :: session where
  "refund_session = \<lparr> s_sessionDate = Some 0, s_duration = Some (Finite 5),
                       s_totalAttempts = Some (Finite (- 2)),
                       s_successfulAttempts = Some (Finite 1), s_failedAttempts = None,
                       s_averageScore = Some (Finite 40), s_attempts = [] \<rparr>"

definition attempt_on :: "string \<Rightarrow> bool \<Rightarrow> attempt" where
  "attempt_on w ok = \<lparr> a_letter = None, a_word = Some w, a_vowel = None,
                        a_success = Some ok, a_score = None, a_timestamp = Some 0 \<rparr>"

definition records_session :: session where
  "records_session =
     \<lparr> s_sessionDate = Some 0, s_duration = Some (Finite 5), s_totalAttempts = None,
       s_successfulAttempts = None, s_failedAttempts = None, s_averageScore = None,
       s_attempts = replicate 7 (attempt_on ''baba'' True) @
                    replicate 3 (attempt_on ''baba'' False) \<rparr>"

definition two_attempts_session :: session where
  "two_attempts_session =
     \<lparr> s_sessionDate = Some 50, s_duration = Some (Finite 10),
       s_totalAttempts = Some (Finite 2), s_successfulAttempts = Some (Finite 1),
       s_failedAttempts = Some (Finite 1), s_averageScore = Some (Finite 60),
       s_attempts =
         [\<lparr> a_letter = None, a_word = Some ''baba'', a_vowel = None, a_success = Some True,
             a_score = Some (Finite 80), a_timestamp = Some 100 \<rparr>,
          \<lparr> a_letter = Some ''b'', a_word = None, a_vowel = None, a_success = Some False,
             a_score = Some (Finite 40), a_timestamp = Some 200 \<rparr>] \<rparr>"

definition store7 :: store where
  "store7 = \<lparr> users = [1 \<mapsto> demo_parent, 2 \<mapsto> demo_specialist],
               children = [demo_child], requests = [], notifications = [],
               exercises = [],
               progress = [updateOverallStats
                             ((new_progress 70 10 0)\<lparr> sessions := [two_attempts_session] \<rparr>)] \<rparr>"


section \<open>Basic facts about the store operations\<close>

lemma find_request_id: "find_request rs i = Some r \<Longrightarrow> r_id r = i \<and> r \<in> set rs"
  by (auto simp: find_request_def find_Some_iff)

lemma authorize_ok: "users st uid = Some u \<Longrightarrow> u_role u = r \<Longrightarrow> authorize r st uid = Inr u"
  by (simp add: authorize_def protect_def)

lemma update_user_same: "us i = Some u \<Longrightarrow> update_user i f us i = Some (f u)"
  by (simp add: update_user_def)

lemma update_user_other: "j \<noteq> i \<Longrightarrow> update_user i f us j = us j"
  by (simp add: update_user_def split: option.splits)

lemma update_user_Some: "us j = Some u \<Longrightarrow> \<exists>u'. update_user i f us j = Some u'"
  by (cases "j = i") (simp_all add: update_user_same update_user_other)

lemma addToSet_mem: "x \<in> set (addToSet xs x)"
  by (simp add: addToSet_def)

lemma set_addToSet: "set (addToSet xs x) = insert x (set xs)"
  by (auto simp: addToSet_def)

lemma set_pull: "set (pull xs x) = set xs - {x}"
  by (auto simp: pull_def)

lemma set_pullAll: "set (pullAll xs ys) = set xs - set ys"
  by (auto simp: pullAll_def)

lemmas demo_defs = demo_parent_def demo_specialist_def demo_child_def demo_request_def

lemma send_link_request_demo:
  "send_link_request store0 1 (Some 2) (Some 10) [] 100 = Inr store1"
  by (simp add: send_link_request_def authorize_def protect_def store0_def store1_def
      demo_defs find_child_def save_child_def trim_def)

text \<open>A message of more than 500 code units after trimming is refused, and nothing is written.\<close>

lemma send_link_request_long_message:
  "500 < length (trim message) \<Longrightarrow>
   send_link_request store0 1 (Some 2) (Some 10) message 100 = Inl (Failure 500 Error_message)"
  by (simp add: send_link_request_def authorize_def protect_def store0_def
      demo_defs find_child_def)

section \<open>Accepting a link request\<close>

text \<open>
  Claim C1, as amended. When specialist \<open>S\<close> accepts a pending link request addressed to
  them, sent by a parent who is linked to nobody or to \<open>S\<close> already, the route succeeds;
  the request is stored as accepted; every other request of that parent that was pending
  is stored as rejected and the remaining requests are as before; the parent is in the
  specialist's \<^verbatim>\<open>linkedParents\<close>; the parent's \<^verbatim>\<open>linkedSpecialist\<close> is \<open>S\<close>; and no
  child record changes: the route does not read \<^verbatim>\<open>request.child\<close>.
\<close>

theorem accept_link_request_effects:
  assumes S: "users st S = Some s" "u_role s = Specialist"
    and req: "find_request (requests st) rid = Some req"
    and to: "r_to req = S" and pend: "r_status req = Req_pending"
    and P: "users st (r_from req) = Some p"
    and free: "linkedSpecialist p = None \<or> linkedSpecialist p = Some S"
  shows "\<exists>st'. accept_link_request st S rid = Inr st' \<and>
     req\<lparr> r_status := Req_accepted \<rparr> \<in> set (requests st') \<and>
     (\<forall>r \<in> set (requests st'). r_id r = rid \<longrightarrow> r = req\<lparr> r_status := Req_accepted \<rparr>) \<and>
     length (requests st') = length (requests st) \<and>
     (\<forall>i < length (requests st). r_id (requests st ! i) \<noteq> rid \<longrightarrow>
        requests st' ! i =
          (if r_from (requests st ! i) = r_from req \<and> r_status (requests st ! i) = Req_pending
           then (requests st ! i)\<lparr> r_status := Req_rejected \<rparr> else requests st ! i)) \<and>
     (\<exists>s'. users st' S = Some s' \<and> r_from req \<in> set (linkedParents s')) \<and>
     (\<exists>p'. users st' (r_from req) = Some p' \<and> linkedSpecialist p' = Some S) \<and>
     children st' = children st"
proof -
  have rid: "r_id req = rid" and mem: "req \<in> set (requests st)"
    using find_request_id [OF req] by simp_all
  define acc where "acc = req\<lparr> r_status := Req_accepted \<rparr>"
  define us1 where "us1 = update_user S
      (\<lambda>u. u\<lparr> linkedParents := addToSet (linkedParents u) (r_from req) \<rparr>) (users st)"
  define us2 where "us2 = update_user (r_from req) (\<lambda>u. u\<lparr> linkedSpecialist := Some S \<rparr>) us1"
  define rs2 where "rs2 = map (\<lambda>r. if r_from r = r_from req \<and> r_status r = Req_pending
                               \<and> r_id r \<noteq> rid
                            then r\<lparr> r_status := Req_rejected \<rparr> else r)
                          (save_request acc (requests st))"
  define ns where "ns = (case us2 S of None \<Rightarrow> notifications st
     | Some sp \<Rightarrow> notifications st @ [Link_accepted (r_from req) (u_name sp) S])"
  define st' where "st' = st\<lparr> requests := rs2, users := us2, notifications := ns \<rparr>"
  have guard: "\<not> (case linkedSpecialist p of None \<Rightarrow> False | Some x \<Rightarrow> x \<noteq> S)"
    using free by auto
  have run: "accept_link_request st S rid = Inr st'"
    unfolding accept_link_request_def
    using authorize_ok [OF S] req to pend P guard
    by (simp add: Let_def st'_def rs2_def us2_def us1_def ns_def acc_def rid)
  have us1_S: "us1 S = Some (s\<lparr> linkedParents := addToSet (linkedParents s) (r_from req) \<rparr>)"
    unfolding us1_def using S(1) by (simp add: update_user_same)
  have us1_P: "\<exists>q. us1 (r_from req) = Some q"
    unfolding us1_def using P by (rule update_user_Some)
  have sp: "\<exists>s'. us2 S = Some s' \<and> r_from req \<in> set (linkedParents s')"
  proof (cases "r_from req = S")
    case True
    then show ?thesis unfolding us2_def using us1_S
      by (simp add: update_user_same addToSet_mem)
  next
    case False
    then show ?thesis unfolding us2_def using us1_S
      by (simp add: update_user_other addToSet_mem)
  qed
  have pp: "\<exists>p'. us2 (r_from req) = Some p' \<and> linkedSpecialist p' = Some S"
  proof -
    from us1_P obtain q where "us1 (r_from req) = Some q" ..
    then show ?thesis unfolding us2_def by (simp add: update_user_same)
  qed
  have in_rs2: "acc \<in> set rs2"
  proof -
    have "acc \<in> set (save_request acc (requests st))"
      using mem rid by (force simp: save_request_def acc_def)
    then show ?thesis unfolding rs2_def using rid by (force simp: acc_def)
  qed
  have only: "\<forall>r \<in> set rs2. r_id r = rid \<longrightarrow> r = acc"
    unfolding rs2_def save_request_def using rid by (auto simp: acc_def)
  have len: "length rs2 = length (requests st)"
    by (simp add: rs2_def save_request_def)
  have others: "\<forall>i < length (requests st). r_id (requests st ! i) \<noteq> rid \<longrightarrow>
        rs2 ! i =
          (if r_from (requests st ! i) = r_from req \<and> r_status (requests st ! i) = Req_pending
           then (requests st ! i)\<lparr> r_status := Req_rejected \<rparr> else requests st ! i)"
    unfolding rs2_def save_request_def using rid by (simp add: acc_def)
  show ?thesis
    using run in_rs2 only len others sp pp
    by (intro exI [of _ st']) (simp add: st'_def acc_def)
qed

text \<open>
  The claim as first stated also sets the child's \<^verbatim>\<open>assignedSpecialist\<close> and status. In
  the store reached by the parent's link request, acceptance leaves the child pending and
  unassigned.
\<close>

theorem accept_link_request_child_counterexample:
  "map_sum id children (accept_link_request store1 2 100) =
     Inr [\<lparr> c_id = 10, c_name = ''Sami'', c_parent = 1, assignedSpecialist = None,
             specialistRequestStatus = Status_pending \<rparr>]"
  by (simp add: accept_link_request_def authorize_def protect_def store1_def
      demo_defs find_request_def save_request_def update_user_def addToSet_def Let_def)

theorem accept_link_request_effects_witness:
  "users store1 2 = Some demo_specialist \<and> u_role demo_specialist = Specialist \<and>
   find_request (requests store1) 100 = Some demo_request \<and>
   r_to demo_request = 2 \<and> r_status demo_request = Req_pending \<and>
   users store1 (r_from demo_request) = Some demo_parent \<and>
   linkedSpecialist demo_parent = None \<and>
   (\<exists>st'. accept_link_request store1 2 100 = Inr st' \<and>
      demo_request\<lparr> r_status := Req_accepted \<rparr> \<in> set (requests st') \<and>
      (\<exists>s'. users st' 2 = Some s' \<and> 1 \<in> set (linkedParents s')) \<and>
      (\<exists>p'. users st' 1 = Some p' \<and> linkedSpecialist p' = Some 2) \<and>
      children st' = children store1)"
proof -
  have 1: "users store1 2 = Some demo_specialist" by (simp add: store1_def)
  have 2: "u_role demo_specialist = Specialist" by (simp add: demo_defs)
  have 3: "find_request (requests store1) 100 = Some demo_request"
    by (simp add: store1_def find_request_def demo_defs)
  have 4: "r_to demo_request = 2" by (simp add: demo_defs)
  have 5: "r_status demo_request = Req_pending" by (simp add: demo_defs)
  have 6: "users store1 (r_from demo_request) = Some demo_parent"
    by (simp add: store1_def demo_defs)
  have 7: "linkedSpecialist demo_parent = None" by (simp add: demo_defs)
  have 8: "r_from demo_request = 1" by (simp add: demo_defs)
  from accept_link_request_effects [OF 1 2 3 4 5 6 disjI1 [OF 7]]
  obtain st' where "accept_link_request store1 2 100 = Inr st'"
    "demo_request\<lparr> r_status := Req_accepted \<rparr> \<in> set (requests st')"
    "\<exists>s'. users st' 2 = Some s' \<and> r_from demo_request \<in> set (linkedParents s')"
    "\<exists>p'. users st' (r_from demo_request) = Some p' \<and> linkedSpecialist p' = Some 2"
    "children st' = children store1"
    by blast
  with 1 2 3 4 5 6 7 8 show ?thesis by auto
qed

section \<open>The assignment invariant of a child\<close>

lemma accept_child_demo:
  "accept_child store1 2 10 = Inr (store2\<lparr> requests := [demo_request] \<rparr>)"
  by (simp add: accept_child_def authorize_def protect_def store1_def store2_def demo_defs
      find_child_def save_child_def update_user_def addToSet_def Let_def fun_upd_twist)

text \<open>
  Claim C2 asks that \<^verbatim>\<open>assignedSpecialist\<close> is set exactly when the status is approved,
  after every linkage operation. \<^verbatim>\<open>reject-child\<close> has no guard on the current status
  (\<^verbatim>\<open>accept-child\<close> beside it has one) and writes only the status: on a child that is
  approved and assigned, it leaves the status rejected and the specialist still assigned.
\<close>

theorem reject_child_breaks_assignment_invariant:
  "list_all assignment_invariant (children store2) \<and>
   map_sum id children (reject_child store2 2 10) =
     Inr [\<lparr> c_id = 10, c_name = ''Sami'', c_parent = 1, assignedSpecialist = Some 2,
             specialistRequestStatus = Status_rejected \<rparr>] \<and>
   \<not> assignment_invariant \<lparr> c_id = 10, c_name = ''Sami'', c_parent = 1,
         assignedSpecialist = Some 2, specialistRequestStatus = Status_rejected \<rparr>"
  by (simp add: reject_child_def authorize_def protect_def store2_def demo_defs
      find_child_def save_child_def assignment_invariant_def)

text \<open>
  \<^verbatim>\<open>request-specialist\<close> writes the status alone as well: on the same child it leaves
  the status pending and the specialist assigned.
\<close>

lemma request_specialist_breaks_assignment_invariant:
  "map_sum id children (request_specialist store2 1 10) =
     Inr [\<lparr> c_id = 10, c_name = ''Sami'', c_parent = 1, assignedSpecialist = Some 2,
             specialistRequestStatus = Status_pending \<rparr>]"
  by (simp add: request_specialist_def authorize_def protect_def store2_def demo_defs
      find_child_def save_child_def)

text \<open>
  The routes that write the pair together keep the invariant: \<^verbatim>\<open>accept-child\<close>,
  \<^verbatim>\<open>send-link-request\<close> (which requires an unassigned child), \<^verbatim>\<open>unlink-specialist\<close>, and
  \<^verbatim>\<open>accept-link-request\<close>, which writes no child.
\<close>

lemma find_child_mem: "find_child cs i = Some c \<Longrightarrow> c \<in> set cs \<and> c_id c = i"
  by (auto simp: find_child_def find_Some_iff)

lemma save_child_invariant:
  "list_all assignment_invariant cs \<Longrightarrow> assignment_invariant c \<Longrightarrow>
   list_all assignment_invariant (save_child c cs)"
  by (auto simp: save_child_def list_all_iff)

lemma accept_child_keeps_invariant:
  assumes "list_all assignment_invariant (children st)" "accept_child st uid c = Inr st'"
  shows "list_all assignment_invariant (children st')"
proof -
  from assms(2) obtain ch where
    "children st' = save_child (ch\<lparr> assignedSpecialist := Some uid,
                                     specialistRequestStatus := Status_approved \<rparr>) (children st)"
    by (auto simp: accept_child_def Let_def split: sum.splits option.splits if_splits)
  then show ?thesis
    using assms(1) by (simp add: save_child_invariant assignment_invariant_def)
qed

lemma send_link_request_keeps_invariant:
  assumes "list_all assignment_invariant (children st)"
    "send_link_request st uid s c msg nid = Inr st'"
  shows "list_all assignment_invariant (children st')"
proof -
  from assms(2) obtain ch where ch: "assignedSpecialist ch = None"
    "children st' = save_child (ch\<lparr> specialistRequestStatus := Status_pending \<rparr>) (children st)"
    by (auto simp: send_link_request_def split: sum.splits option.splits if_splits)
  then show ?thesis
    using assms(1) by (simp add: save_child_invariant assignment_invariant_def)
qed

lemma detach_keeps_invariant:
  "list_all assignment_invariant cs \<Longrightarrow>
   list_all assignment_invariant
     (map (\<lambda>c. if P c then c\<lparr> assignedSpecialist := None,
                                specialistRequestStatus := Status_none \<rparr> else c) cs)"
  by (auto simp: list_all_iff assignment_invariant_def)

lemma unlink_specialist_keeps_invariant:
  assumes "list_all assignment_invariant (children st)" "unlink_specialist st uid = Inr st'"
  shows "list_all assignment_invariant (children st')"
proof -
  from assms(2) obtain p where a: "authorize Parent st uid = Inr p"
    by (cases "authorize Parent st uid") (simp_all add: unlink_specialist_def)
  with assms(2) obtain sid where l: "linkedSpecialist p = Some sid"
    by (cases "linkedSpecialist p") (simp_all add: unlink_specialist_def)
  define ids where
    "ids = map c_id (filter (\<lambda>c. c_parent c = uid \<and> assignedSpecialist c = Some sid)
                       (children st))"
  from assms(2) a l have "children st' =
      (if ids \<noteq> []
       then map (\<lambda>c. if c_id c \<in> set ids
                      then c\<lparr> assignedSpecialist := None,
                              specialistRequestStatus := Status_none \<rparr>
                      else c) (children st)
       else children st)"
    unfolding unlink_specialist_def ids_def Let_def by auto
  then show ?thesis
    using assms(1) detach_keeps_invariant [OF assms(1), of "\<lambda>c. c_id c \<in> set ids"]
    by (simp split: if_splits)
qed

lemma accept_link_request_children:
  "accept_link_request st uid r = Inr st' \<Longrightarrow> children st' = children st"
  by (auto simp: accept_link_request_def Let_def split: sum.splits option.splits if_splits)

theorem assignment_invariant_kept:
  assumes "list_all assignment_invariant (children st)"
  shows "(accept_child st uid c = Inr st1 \<longrightarrow> list_all assignment_invariant (children st1)) \<and>
         (send_link_request st uid s c' msg nid = Inr st2 \<longrightarrow>
            list_all assignment_invariant (children st2)) \<and>
         (unlink_specialist st uid = Inr st3 \<longrightarrow> list_all assignment_invariant (children st3)) \<and>
         (accept_link_request st uid r = Inr st4 \<longrightarrow>
            list_all assignment_invariant (children st4))"
proof (intro conjI impI)
  show "list_all assignment_invariant (children st1)" if "accept_child st uid c = Inr st1"
    by (rule accept_child_keeps_invariant [OF assms that])
  show "list_all assignment_invariant (children st2)"
    if "send_link_request st uid s c' msg nid = Inr st2"
    by (rule send_link_request_keeps_invariant [OF assms that])
  show "list_all assignment_invariant (children st3)" if "unlink_specialist st uid = Inr st3"
    by (rule unlink_specialist_keeps_invariant [OF assms that])
  show "list_all assignment_invariant (children st4)" if "accept_link_request st uid r = Inr st4"
    using accept_link_request_children [OF that] assms by simp
qed

theorem assignment_invariant_kept_witness:
  "list_all assignment_invariant (children store1) \<and>
   accept_child store1 2 10 = Inr (store2\<lparr> requests := [demo_request] \<rparr>) \<and>
   list_all assignment_invariant (children (store2\<lparr> requests := [demo_request] \<rparr>))"
proof -
  have 1: "list_all assignment_invariant (children store1)"
    by (simp add: store1_def demo_defs assignment_invariant_def)
  from assignment_invariant_kept [OF 1, of 2 10 "store2\<lparr> requests := [demo_request] \<rparr>"]
    accept_child_demo
  have "list_all assignment_invariant (children (store2\<lparr> requests := [demo_request] \<rparr>))"
    by blast
  with 1 accept_child_demo show ?thesis by simp
qed

section \<open>Consistency of parent and specialist links\<close>

lemma store3_consistent: "linked_ok store3 P S"
  by (simp add: linked_ok_def store3_def demo_defs)

text \<open>
  Claim C3 asks that \<open>P\<close> names \<open>S\<close> exactly when \<open>S\<close> lists \<open>P\<close>, after every linkage
  operation. \<^verbatim>\<open>link-parent\<close> does not look at the parent's current \<^verbatim>\<open>linkedSpecialist\<close>
  (\<^verbatim>\<open>accept-link-request\<close> refuses a parent linked to another specialist): from a
  consistent store, specialist 3 linking the parent of specialist 2 leaves the parent
  naming 3 while 2 still lists the parent.
\<close>

theorem link_parent_breaks_link_consistency:
  "(\<forall>P S. linked_ok store3 P S) \<and>
   map_sum id (\<lambda>st. (map_option linkedSpecialist (users st 1),
                       map_option linkedParents (users st 2),
                       map_option linkedParents (users st 3)))
     (link_parent store3 3 (Some 1)) = Inr (Some (Some 3), Some [1], Some [1]) \<and>
   map_sum id (\<lambda>st. linked_ok st 1 2) (link_parent store3 3 (Some 1)) = Inr False"
  by (simp add: store3_consistent)
     (simp add: link_parent_def authorize_def protect_def store3_def demo_defs
      update_user_def addToSet_def Let_def linked_ok_def)

text \<open>
  \<^verbatim>\<open>unlink-parent\<close> has the same gap: any specialist can clear the link of a parent
  that another specialist lists.
\<close>

lemma unlink_parent_breaks_link_consistency:
  "map_sum id (\<lambda>st. linked_ok st 1 2) (unlink_parent store3 3 1) = Inr False"
  by (simp add: unlink_parent_def authorize_def protect_def store3_def demo_defs
      update_user_def pull_def Let_def linked_ok_def)

section \<open>A parent unlinks from the specialist\<close>

lemma update_user_apply:
  "update_user i f us j = (if j = i then map_option f (us i) else us j)"
  by (simp add: update_user_def split: option.splits)

text \<open>
  Claim C4. When a parent \<open>P\<close> linked to specialist \<open>S\<close> calls \<^verbatim>\<open>unlink-specialist\<close>, the
  route succeeds; the parent's \<^verbatim>\<open>linkedSpecialist\<close> is cleared; \<open>P\<close> is no longer among the
  \<^verbatim>\<open>linkedParents\<close> of \<open>S\<close> (and \<open>S\<close> is still a user if it was one); every child of \<open>P\<close>
  that was assigned to \<open>S\<close> has \<^verbatim>\<open>assignedSpecialist\<close> cleared and status \<^verbatim>\<open>none\<close>; none of
  those children is left in the \<^verbatim>\<open>assignedChildren\<close> of \<open>S\<close>; and one notification for
  \<open>S\<close> is appended, carrying the parent's name, the joined names of the detached
  children and their identifiers.
\<close>

theorem unlink_specialist_effects:
  assumes P: "users st P = Some p" "u_role p = Parent"
    and link: "linkedSpecialist p = Some S"
  shows "\<exists>st'. unlink_specialist st P = Inr st' \<and>
     (\<exists>p'. users st' P = Some p' \<and> linkedSpecialist p' = None) \<and>
     (\<forall>s'. users st' S = Some s' \<longrightarrow> P \<notin> set (linkedParents s')) \<and>
     (users st' S = None) = (users st S = None) \<and>
     length (children st') = length (children st) \<and>
     (\<forall>i < length (children st).
        c_parent (children st ! i) = P \<and> assignedSpecialist (children st ! i) = Some S \<longrightarrow>
        children st' ! i = (children st ! i)\<lparr> assignedSpecialist := None,
                                              specialistRequestStatus := Status_none \<rparr>) \<and>
     (\<forall>s'. users st' S = Some s' \<longrightarrow>
        (\<forall>c \<in> set (children st). c_parent c = P \<and> assignedSpecialist c = Some S \<longrightarrow>
           c_id c \<notin> set (assignedChildren s'))) \<and>
     notifications st' = notifications st @
       [Link_cancelled S (u_name p)
          (let found = filter (\<lambda>c. c_parent c = P \<and> assignedSpecialist c = Some S) (children st)
           in if found = [] then None
              else Some (if join '', '' (map c_name found) = [] then Without_names
                         else Names (join '', '' (map c_name found))))
          P
          (map c_id (filter (\<lambda>c. c_parent c = P \<and> assignedSpecialist c = Some S)
             (children st)))]"
proof -
  define found where
    "found = filter (\<lambda>c. c_parent c = P \<and> assignedSpecialist c = Some S) (children st)"
  define ids where "ids = map c_id found"
  define us1 where "us1 = (users st)(P \<mapsto> p\<lparr> linkedSpecialist := None \<rparr>)"
  define us2 where "us2 = update_user S (\<lambda>u. u\<lparr> linkedParents := pull (linkedParents u) P \<rparr>) us1"
  define us3 where "us3 = (if ids \<noteq> []
      then update_user S (\<lambda>u. u\<lparr> assignedChildren := pullAll (assignedChildren u) ids \<rparr>) us2
      else us2)"
  define cs' where "cs' = (if ids \<noteq> []
      then map (\<lambda>c. if c_id c \<in> set ids
                     then c\<lparr> assignedSpecialist := None, specialistRequestStatus := Status_none \<rparr>
                     else c) (children st)
      else children st)"
  define n where "n = Link_cancelled S (u_name p)
      (if ids \<noteq> [] then Some (if join '', '' (map c_name found) \<noteq> [] then
          Names (join '', '' (map c_name found)) else Without_names) else None) P ids"
  define st' where
    "st' = st\<lparr> users := us3, children := cs', notifications := notifications st @ [n] \<rparr>"
  have run: "unlink_specialist st P = Inr st'"
    unfolding unlink_specialist_def
    using authorize_ok [OF P] link
    by (simp add: Let_def st'_def n_def cs'_def us3_def us2_def us1_def ids_def found_def)
  have ids_empty: "(ids = []) = (found = [])"
    by (simp add: ids_def)
  have parent: "\<exists>p'. us3 P = Some p' \<and> linkedSpecialist p' = None"
    by (cases "S = P") (simp_all add: us3_def us2_def us1_def update_user_apply)
  have gone: "\<forall>s'. us3 S = Some s' \<longrightarrow> P \<notin> set (linkedParents s')"
    by (cases "S = P")
       (auto simp: us3_def us2_def us1_def update_user_apply set_pull split: if_splits)
  have exists: "(us3 S = None) = (users st S = None)"
    using P(1) by (cases "S = P") (auto simp: us3_def us2_def us1_def update_user_apply)
  have len: "length cs' = length (children st)"
    by (simp add: cs'_def)
  have in_ids: "c_id c \<in> set ids"
    if "c \<in> set (children st)" "c_parent c = P" "assignedSpecialist c = Some S" for c
    using that by (auto simp: ids_def found_def)
  have ids_ne: "ids \<noteq> []"
    if "c \<in> set (children st)" "c_parent c = P" "assignedSpecialist c = Some S" for c
    using in_ids [OF that] by auto
  have detached: "\<forall>i < length (children st).
        c_parent (children st ! i) = P \<and> assignedSpecialist (children st ! i) = Some S \<longrightarrow>
        cs' ! i = (children st ! i)\<lparr> assignedSpecialist := None,
                                      specialistRequestStatus := Status_none \<rparr>"
  proof (intro allI impI)
    fix i assume i: "i < length (children st)"
      and m: "c_parent (children st ! i) = P \<and> assignedSpecialist (children st ! i) = Some S"
    have mem: "children st ! i \<in> set (children st)" using i by simp
    from m have "c_id (children st ! i) \<in> set ids" "ids \<noteq> []"
      using in_ids [OF mem] ids_ne [OF mem] by simp_all
    then show "cs' ! i = (children st ! i)\<lparr> assignedSpecialist := None,
                                      specialistRequestStatus := Status_none \<rparr>"
      using i by (simp add: cs'_def)
  qed
  have pulled: "\<forall>s'. us3 S = Some s' \<longrightarrow>
        (\<forall>c \<in> set (children st). c_parent c = P \<and> assignedSpecialist c = Some S \<longrightarrow>
           c_id c \<notin> set (assignedChildren s'))"
  proof (intro allI impI ballI)
    fix s' c assume s': "us3 S = Some s'" and c: "c \<in> set (children st)"
      and m: "c_parent c = P \<and> assignedSpecialist c = Some S"
    from m have ne: "ids \<noteq> []" and mem: "c_id c \<in> set ids"
      using ids_ne [OF c] in_ids [OF c] by simp_all
    from s' ne obtain u where "s' = u\<lparr> assignedChildren := pullAll (assignedChildren u) ids \<rparr>"
      by (auto simp: us3_def update_user_apply)
    with mem show "c_id c \<notin> set (assignedChildren s')"
      by (simp add: set_pullAll)
  qed
  have msg: "n = Link_cancelled S (u_name p)
          (if found = [] then None
              else Some (if join '', '' (map c_name found) = [] then Without_names
                         else Names (join '', '' (map c_name found)))) P (map c_id found)"
    by (simp add: n_def ids_def)
  show ?thesis
    using run parent gone exists len detached pulled msg
    by (intro exI [of _ st']) (simp add: st'_def Let_def found_def [symmetric])
qed

text \<open>
  The scenario of the specification: parent 1 linked to specialist 2, with children 10
  and 11 both assigned to 2.
\<close>

theorem unlink_specialist_effects_witness:
  "users store4 1 = Some (demo_parent\<lparr> linkedSpecialist := Some 2 \<rparr>) \<and>
   u_role (demo_parent\<lparr> linkedSpecialist := Some 2 \<rparr>) = Parent \<and>
   linkedSpecialist (demo_parent\<lparr> linkedSpecialist := Some 2 \<rparr>) = Some 2 \<and>
   (\<exists>st'. unlink_specialist store4 1 = Inr st' \<and>
      (\<exists>p'. users st' 1 = Some p' \<and> linkedSpecialist p' = None) \<and>
      length (children st') = length (children store4)) \<and>
   map_sum id (\<lambda>st. map_option linkedParents (users st 2)) (unlink_specialist store4 1)
     = Inr (Some []) \<and>
   map_sum id (\<lambda>st. map_option assignedChildren (users st 2)) (unlink_specialist store4 1)
     = Inr (Some []) \<and>
   map_sum id children (unlink_specialist store4 1) =
     Inr [\<lparr> c_id = 10, c_name = ''Sami'', c_parent = 1, assignedSpecialist = None,
             specialistRequestStatus = Status_none \<rparr>,
          \<lparr> c_id = 11, c_name = ''Lina'', c_parent = 1, assignedSpecialist = None,
             specialistRequestStatus = Status_none \<rparr>] \<and>
   map_sum id notifications (unlink_specialist store4 1) =
     Inr [Link_cancelled 2 ''Amal'' (Some (Names ''Sami, Lina'')) 1 [10, 11]]"
proof -
  let ?p = "demo_parent\<lparr> linkedSpecialist := Some 2 \<rparr>"
  have 1: "users store4 1 = Some ?p" by (simp add: store4_def)
  have 2: "u_role ?p = Parent" by (simp add: demo_defs)
  have 3: "linkedSpecialist ?p = Some 2" by simp
  have general: "\<exists>st'. unlink_specialist store4 1 = Inr st' \<and>
      (\<exists>p'. users st' 1 = Some p' \<and> linkedSpecialist p' = None) \<and>
      length (children st') = length (children store4)"
    using unlink_specialist_effects [OF 1 2 3] by (elim exE conjE) (intro exI conjI; assumption)
  have run: "unlink_specialist store4 1 =
     Inr \<lparr> users = [1 \<mapsto> demo_parent,
                     2 \<mapsto> demo_specialist],
           children = [\<lparr> c_id = 10, c_name = ''Sami'', c_parent = 1, assignedSpecialist = None,
                          specialistRequestStatus = Status_none \<rparr>,
                       \<lparr> c_id = 11, c_name = ''Lina'', c_parent = 1, assignedSpecialist = None,
                          specialistRequestStatus = Status_none \<rparr>],
           requests = [],
           notifications = [Link_cancelled 2 ''Amal'' (Some (Names ''Sami, Lina'')) 1 [10, 11]],
           exercises = [], progress = [] \<rparr>"
    by (simp add: unlink_specialist_def authorize_def protect_def store4_def demo_defs
        update_user_def pull_def pullAll_def Let_def fun_upd_twist)
  have ev: "map_sum id (\<lambda>st. map_option linkedParents (users st 2)) (unlink_specialist store4 1)
       = Inr (Some []) \<and>
     map_sum id (\<lambda>st. map_option assignedChildren (users st 2)) (unlink_specialist store4 1)
       = Inr (Some []) \<and>
     map_sum id children (unlink_specialist store4 1) =
       Inr [\<lparr> c_id = 10, c_name = ''Sami'', c_parent = 1, assignedSpecialist = None,
               specialistRequestStatus = Status_none \<rparr>,
            \<lparr> c_id = 11, c_name = ''Lina'', c_parent = 1, assignedSpecialist = None,
               specialistRequestStatus = Status_none \<rparr>] \<and>
     map_sum id notifications (unlink_specialist store4 1) =
       Inr [Link_cancelled 2 ''Amal'' (Some (Names ''Sami, Lina'')) 1 [10, 11]]"
    unfolding run by (simp add: demo_defs)
  from 1 2 3 general ev show ?thesis by (intro conjI) (elim conjE, assumption)+
qed

section \<open>Routes that keep the links consistent\<close>

text \<open>
  \<^verbatim>\<open>accept-link-request\<close> refuses a parent linked to another specialist, and
  \<^verbatim>\<open>unlink-specialist\<close> removes both sides of the link it finds on the parent: from a
  store in which every parent and specialist agree, both routes lead to such a store.
\<close>

lemma accept_link_request_users:
  assumes "accept_link_request st uid r = Inr st'"
  shows "\<exists>me F p. users st uid = Some me \<and> users st F = Some p \<and>
           (linkedSpecialist p = None \<or> linkedSpecialist p = Some uid) \<and>
           users st' = update_user F (\<lambda>u. u\<lparr> linkedSpecialist := Some uid \<rparr>)
             (update_user uid (\<lambda>u. u\<lparr> linkedParents := addToSet (linkedParents u) F \<rparr>)
                (users st))"
proof -
  from assms obtain me where a: "authorize Specialist st uid = Inr me"
    by (cases "authorize Specialist st uid") (simp_all add: accept_link_request_def)
  then have me: "users st uid = Some me"
    by (auto simp: authorize_def protect_def split: option.splits if_splits)
  from assms a obtain req where q: "find_request (requests st) r = Some req"
    by (cases "find_request (requests st) r") (simp_all add: accept_link_request_def)
  from assms a q have ok: "r_to req = uid" "r_status req = Req_pending"
    by (auto simp: accept_link_request_def split: if_splits)
  from assms a q ok obtain p where p: "users st (r_from req) = Some p"
    by (cases "users st (r_from req)") (simp_all add: accept_link_request_def)
  from assms a q ok p have free: "linkedSpecialist p = None \<or> linkedSpecialist p = Some uid"
    by (auto simp: accept_link_request_def split: if_splits option.splits)
  then have g: "\<not> (case linkedSpecialist p of None \<Rightarrow> False | Some x \<Rightarrow> x \<noteq> uid)"
    by auto
  from assms a q ok p g have "users st' =
      update_user (r_from req) (\<lambda>u. u\<lparr> linkedSpecialist := Some uid \<rparr>)
        (update_user uid
           (\<lambda>u. u\<lparr> linkedParents := addToSet (linkedParents u) (r_from req) \<rparr>) (users st))"
    by (auto simp: accept_link_request_def Let_def)
  with me p free show ?thesis by blast
qed

lemma accept_link_request_keeps_links:
  assumes inv: "\<forall>P S. linked_ok st P S" and run: "accept_link_request st uid r = Inr st'"
  shows "linked_ok st' P S"
proof -
  from accept_link_request_users [OF run] obtain me F p where
    me: "users st uid = Some me" and p: "users st F = Some p"
    and free: "linkedSpecialist p = None \<or> linkedSpecialist p = Some uid"
    and us: "users st' = update_user F (\<lambda>u. u\<lparr> linkedSpecialist := Some uid \<rparr>)
             (update_user uid (\<lambda>u. u\<lparr> linkedParents := addToSet (linkedParents u) F \<rparr>)
                (users st))"
    by blast
  have old: "linked_ok st P S" "linked_ok st F S" "linked_ok st P uid"
    using inv by simp_all
  show ?thesis
  proof (cases "P = F")
    case True
    show ?thesis
    proof (cases "S = uid")
      case True
      with \<open>P = F\<close> me p show ?thesis
        by (auto simp: linked_ok_def us update_user_apply set_addToSet)
    next
      case False
      with \<open>P = F\<close> me p free old(2) show ?thesis
        by (auto simp: linked_ok_def us update_user_apply set_addToSet split: option.splits)
    qed
  next
    case False
    show ?thesis
    proof (cases "S = uid")
      case True
      with \<open>P \<noteq> F\<close> me p old(3) show ?thesis
        by (auto simp: linked_ok_def us update_user_apply set_addToSet split: option.splits)
    next
      case False
      with \<open>P \<noteq> F\<close> me p old(1) show ?thesis
        by (auto simp: linked_ok_def us update_user_apply set_addToSet split: option.splits)
    qed
  qed
qed

lemma unlink_specialist_users:
  assumes "unlink_specialist st uid = Inr st'"
  shows "\<exists>p S ids. users st uid = Some p \<and> linkedSpecialist p = Some S \<and>
           (users st' =
              update_user S (\<lambda>u. u\<lparr> linkedParents := pull (linkedParents u) uid \<rparr>)
                ((users st)(uid \<mapsto> p\<lparr> linkedSpecialist := None \<rparr>)) \<or>
            users st' =
              update_user S (\<lambda>u. u\<lparr> assignedChildren := pullAll (assignedChildren u) ids \<rparr>)
                (update_user S (\<lambda>u. u\<lparr> linkedParents := pull (linkedParents u) uid \<rparr>)
                   ((users st)(uid \<mapsto> p\<lparr> linkedSpecialist := None \<rparr>))))"
proof -
  from assms obtain p where a: "authorize Parent st uid = Inr p"
    by (cases "authorize Parent st uid") (simp_all add: unlink_specialist_def)
  then have u: "users st uid = Some p"
    by (auto simp: authorize_def protect_def split: option.splits if_splits)
  from assms a obtain S where l: "linkedSpecialist p = Some S"
    by (cases "linkedSpecialist p") (simp_all add: unlink_specialist_def)
  let ?ids = "map c_id (filter (\<lambda>c. c_parent c = uid \<and> assignedSpecialist c = Some S)
                       (children st))"
  let ?us2 = "update_user S (\<lambda>u. u\<lparr> linkedParents := pull (linkedParents u) uid \<rparr>)
                ((users st)(uid \<mapsto> p\<lparr> linkedSpecialist := None \<rparr>))"
  from assms a l have "users st' = ?us2 \<or>
      users st' = update_user S
        (\<lambda>u. u\<lparr> assignedChildren := pullAll (assignedChildren u) ?ids \<rparr>) ?us2"
    by (auto simp: unlink_specialist_def Let_def split: if_splits)
  with u l show ?thesis by blast
qed

lemma unlink_specialist_keeps_links:
  assumes inv: "\<forall>P S. linked_ok st P S" and run: "unlink_specialist st uid = Inr st'"
  shows "linked_ok st' P S"
proof -
  from unlink_specialist_users [OF run] obtain p T ids where
    p: "users st uid = Some p" and l: "linkedSpecialist p = Some T"
    and us: "users st' =
              update_user T (\<lambda>u. u\<lparr> linkedParents := pull (linkedParents u) uid \<rparr>)
                ((users st)(uid \<mapsto> p\<lparr> linkedSpecialist := None \<rparr>)) \<or>
            users st' =
              update_user T (\<lambda>u. u\<lparr> assignedChildren := pullAll (assignedChildren u) ids \<rparr>)
                (update_user T (\<lambda>u. u\<lparr> linkedParents := pull (linkedParents u) uid \<rparr>)
                   ((users st)(uid \<mapsto> p\<lparr> linkedSpecialist := None \<rparr>)))"
    by blast
  have old: "linked_ok st P S" "linked_ok st uid S"
    using inv by simp_all
  show ?thesis
  proof (cases "P = uid")
    case True
    from us show ?thesis
    proof
      assume "users st' =
              update_user T (\<lambda>u. u\<lparr> linkedParents := pull (linkedParents u) uid \<rparr>)
                ((users st)(uid \<mapsto> p\<lparr> linkedSpecialist := None \<rparr>))"
      with True p l old(2) show ?thesis
        by (auto simp: linked_ok_def update_user_apply set_pull split: option.splits)
    next
      assume "users st' =
              update_user T (\<lambda>u. u\<lparr> assignedChildren := pullAll (assignedChildren u) ids \<rparr>)
                (update_user T (\<lambda>u. u\<lparr> linkedParents := pull (linkedParents u) uid \<rparr>)
                   ((users st)(uid \<mapsto> p\<lparr> linkedSpecialist := None \<rparr>)))"
      with True p l old(2) show ?thesis
        by (auto simp: linked_ok_def update_user_apply set_pull split: option.splits)
    qed
  next
    case False
    from us show ?thesis
    proof
      assume "users st' =
              update_user T (\<lambda>u. u\<lparr> linkedParents := pull (linkedParents u) uid \<rparr>)
                ((users st)(uid \<mapsto> p\<lparr> linkedSpecialist := None \<rparr>))"
      with False p l old(1) show ?thesis
        by (auto simp: linked_ok_def update_user_apply set_pull split: option.splits)
    next
      assume "users st' =
              update_user T (\<lambda>u. u\<lparr> assignedChildren := pullAll (assignedChildren u) ids \<rparr>)
                (update_user T (\<lambda>u. u\<lparr> linkedParents := pull (linkedParents u) uid \<rparr>)
                   ((users st)(uid \<mapsto> p\<lparr> linkedSpecialist := None \<rparr>)))"
      with False p l old(1) show ?thesis
        by (auto simp: linked_ok_def update_user_apply set_pull split: option.splits)
    qed
  qed
qed

theorem link_consistency_kept:
  assumes "\<forall>P S. linked_ok st P S"
  shows "(accept_link_request st uid r = Inr st1 \<longrightarrow> linked_ok st1 P S) \<and>
         (unlink_specialist st uid = Inr st2 \<longrightarrow> linked_ok st2 P S)"
  using accept_link_request_keeps_links [OF assms] unlink_specialist_keeps_links [OF assms]
  by blast


theorem link_consistency_kept_witness:
  "(\<forall>P S. linked_ok store1 P S) \<and>
   map_sum id (\<lambda>st. linked_ok st 1 2) (accept_link_request store1 2 100) = Inr True \<and>
   map_sum id (\<lambda>st. map_option linkedSpecialist (users st 1)) (accept_link_request store1 2 100)
     = Inr (Some (Some 2))"
proof -
  have 1: "\<forall>P S. linked_ok store1 P S"
    by (simp add: linked_ok_def store1_def demo_defs)
  obtain st' where run: "accept_link_request store1 2 100 = Inr st'"
    and p: "map_option linkedSpecialist (users st' 1) = Some (Some 2)"
    by (simp add: accept_link_request_def authorize_def protect_def store1_def
      demo_defs find_request_def save_request_def update_user_def addToSet_def Let_def)
  from link_consistency_kept [OF 1, of 2 100 st' 1 2] run
  have "linked_ok st' 1 2" by blast
  with 1 run p show ?thesis by simp
qed

section \<open>Content: trimming, lookup and the shared add block\<close>

lemma trimmed_head:
  assumes "u = [] \<or> \<not> P (hd u)"
  shows "rev (dropWhile P (rev u)) = [] \<or> \<not> P (hd (rev (dropWhile P (rev u))))"
proof (cases u)
  case Nil
  then show ?thesis by simp
next
  case (Cons x u')
  with assms have x: "\<not> P x" by simp
  have "\<exists>w. dropWhile P (rev u' @ [x]) = w @ [x]"
    using x by (cases "\<forall>y \<in> set (rev u'). P y") (auto simp: dropWhile_append)
  then obtain w where "dropWhile P (rev u) = w @ [x]"
    using Cons by auto
  then show ?thesis using x by simp
qed

lemma trim_idem: "trim (trim s) = trim s"
proof -
  let ?P = is_whitespace
  let ?u = "dropWhile ?P s"
  let ?t = "rev (dropWhile ?P (rev ?u))"
  have u: "?u = [] \<or> \<not> ?P (hd ?u)"
    using hd_dropWhile [of ?P s] by blast
  have "?t = [] \<or> \<not> ?P (hd ?t)"
    by (rule trimmed_head [where P = is_whitespace and u = "dropWhile is_whitespace s", OF u])
  then have front: "dropWhile ?P ?t = ?t"
    by (simp add: dropWhile_eq_self_iff)
  have "trim (trim s) = rev (dropWhile ?P (rev (dropWhile ?P ?t)))"
    by (simp add: trim_def)
  also have "\<dots> = rev (dropWhile ?P (dropWhile ?P (rev ?u)))"
    by (simp add: front)
  also have "\<dots> = ?t"
    by simp
  finally show ?thesis by (simp add: trim_def)
qed

lemma find_replace:
  "find P ys = Some d \<Longrightarrow> P d' \<Longrightarrow>
   find P (map (\<lambda>e. if k e = k d then d' else e) ys) = Some d'"
  by (induction ys) (auto split: if_splits)

lemma find_append_new:
  "find P ys = None \<Longrightarrow> P d \<Longrightarrow> find P (ys @ [d]) = Some d"
  by (induction ys) (auto split: if_splits)

lemma new_item_text:
  "new_item trimmed difficulty img uid ni now = Some created \<Longrightarrow>
   i_text created = trimmed \<and> trimmed \<noteq> [] \<and> i_id created = ni \<and> i_createdBy created = uid"
  by (auto simp: new_item_def split: if_splits difficulty_input.splits)

lemma new_item_Some:
  "trimmed \<noteq> [] \<Longrightarrow> difficulty \<noteq> Other_difficulty \<Longrightarrow>
   \<exists>created. new_item trimmed difficulty img uid ni now = Some created"
  by (cases difficulty) (simp_all add: new_item_def)

lemma add_item_duplicate:
  assumes "find (is_content_of X) (exercises st) = Some d"
    and "list_ex (\<lambda>i. i_text i = trim text) (targetArr t d)"
  shows "add_item st uid X t text difficulty img err nd ni now =
           (st, Inl (Failure 400 (Already_exists t)))"
  using assms by (simp add: add_item_def getOrCreateContentDoc_def Let_def)

lemma getOrCreate_doc:
  "\<exists>d. snd (getOrCreateContentDoc st Y nd) = d \<and> is_content_of Y d \<and>
     find (is_content_of Y) (exercises (fst (getOrCreateContentDoc st Y nd))) = Some d \<and>
     targetArr t d = (case find (is_content_of Y) (exercises st) of
                        None \<Rightarrow> [] | Some d0 \<Rightarrow> targetArr t d0)"
proof (cases "find (is_content_of Y) (exercises st)")
  case None
  then show ?thesis
    by (simp add: getOrCreateContentDoc_def Let_def find_append_new is_content_of_def
        targetArr_def)
next
  case (Some d0)
  then have "is_content_of Y d0" by (auto simp: find_Some_iff)
  with Some show ?thesis by (simp add: getOrCreateContentDoc_def)
qed

lemma is_content_of_push: "is_content_of Y (push_item t i d) = is_content_of Y d"
  by (simp add: is_content_of_def push_item_def)

lemma targetArr_push: "targetArr t (push_item t i d) = targetArr t d @ [i]"
  by (simp add: targetArr_def push_item_def)

lemma e_id_push: "e_id (push_item t i d) = e_id d"
  by (simp add: push_item_def)

lemma add_item_fresh:
  assumes fresh: "\<not> list_ex (\<lambda>i. i_text i = trim text)
            (case find (is_content_of Y) (exercises st) of
               None \<Rightarrow> [] | Some d0 \<Rightarrow> targetArr t d0)"
    and nonempty: "trim text \<noteq> []" and valid: "difficulty \<noteq> Other_difficulty"
  shows "\<exists>st' created d'.
     add_item st uid Y t text difficulty img err nd ni now = (st', Inr created) \<and>
     i_text created = trim text \<and>
     find (is_content_of Y) (exercises st') = Some d' \<and>
     targetArr t d' =
       (case find (is_content_of Y) (exercises st) of
          None \<Rightarrow> [] | Some d0 \<Rightarrow> targetArr t d0) @ [created]"
proof -
  obtain created where c: "new_item (trim text) difficulty img uid ni now = Some created"
    using new_item_Some [OF nonempty valid] by blast
  define st1 where "st1 = fst (getOrCreateContentDoc st Y nd)"
  define d where "d = snd (getOrCreateContentDoc st Y nd)"
  from getOrCreate_doc [of st Y nd t]
  have d: "is_content_of Y d" "find (is_content_of Y) (exercises st1) = Some d"
    "targetArr t d = (case find (is_content_of Y) (exercises st) of
                        None \<Rightarrow> [] | Some d0 \<Rightarrow> targetArr t d0)"
    by (simp_all add: st1_def d_def)
  define d' where "d' = push_item t created d"
  have run: "add_item st uid Y t text difficulty img err nd ni now =
     (st1\<lparr> exercises := save_exercise d' (exercises st1) \<rparr>, Inr created)"
    using fresh c d(3) by (simp add: add_item_def Let_def st1_def d_def d'_def)
  have found: "find (is_content_of Y) (save_exercise d' (exercises st1)) = Some d'"
    unfolding save_exercise_def d'_def e_id_push
    by (rule find_replace [OF d(2)]) (simp add: is_content_of_push d(1))
  show ?thesis
    using run found new_item_text [OF c] d(3)
    by (intro exI [of _ "st1\<lparr> exercises := save_exercise d' (exercises st1) \<rparr>"]
         exI [of _ created] exI [of _ d']) (simp add: d'_def targetArr_push)
qed

lemma texts_ok_Nil: "texts_ok []"
  by (simp add: texts_ok_def)

lemma texts_ok_snoc:
  assumes "texts_ok items" "trim (i_text i) = i_text i"
    and "\<not> list_ex (\<lambda>j. i_text j = i_text i) items"
  shows "texts_ok (items @ [i])"
proof -
  have "i_text i \<notin> set (map i_text items)"
    using assms(3) by (auto simp: list_ex_iff)
  then show ?thesis
    using assms(1,2) by (simp add: texts_ok_def)
qed

lemma texts_ok_trimmed_distinct:
  assumes "texts_ok items"
  shows "distinct (map (\<lambda>i. trim (i_text i)) items)"
proof -
  have "\<forall>j \<in> set items. trim (i_text j) = i_text j"
    using assms by (simp add: texts_ok_def list_all_iff)
  then have "map (\<lambda>i. trim (i_text i)) items = map i_text items"
    by (intro map_cong [OF refl]) simp
  moreover have "distinct (map i_text items)"
    using assms by (simp add: texts_ok_def)
  ultimately show ?thesis by (simp only:)
qed

lemma getOrCreate_invariant:
  "content_invariant st \<Longrightarrow> content_invariant (fst (getOrCreateContentDoc st Y nd))"
  by (simp add: getOrCreateContentDoc_def content_invariant_def Let_def texts_ok_Nil
      split: option.splits)

lemma getOrCreate_member:
  "snd (getOrCreateContentDoc st Y nd) \<in> set (exercises (fst (getOrCreateContentDoc st Y nd)))"
  by (auto simp: getOrCreateContentDoc_def Let_def find_Some_iff split: option.splits)

lemma add_item_invariant:
  assumes "content_invariant st"
  shows "content_invariant (fst (add_item st uid Y t text difficulty img err nd ni now))"
proof -
  define st1 where "st1 = fst (getOrCreateContentDoc st Y nd)"
  define d where "d = snd (getOrCreateContentDoc st Y nd)"
  have inv1: "content_invariant st1"
    unfolding st1_def by (rule getOrCreate_invariant [OF assms])
  have mem: "d \<in> set (exercises st1)"
    unfolding st1_def d_def by (rule getOrCreate_member)
  then have dok: "texts_ok (contentWords d)" "texts_ok (contentLetters d)"
    using inv1 by (auto simp: content_invariant_def list_all_iff)
  show ?thesis
  proof (cases "list_ex (\<lambda>i. i_text i = trim text) (targetArr t d)")
    case True
    then show ?thesis
      using inv1 by (simp add: add_item_def Let_def st1_def d_def)
  next
    case False
    show ?thesis
    proof (cases "new_item (trim text) difficulty img uid ni now")
      case None
      with False show ?thesis
        using inv1 by (simp add: add_item_def Let_def st1_def d_def)
    next
      case (Some created)
      have tx: "i_text created = trim text"
        using new_item_text [OF Some] by simp
      then have trimmed: "trim (i_text created) = i_text created"
        by (simp add: trim_idem)
      have new: "\<not> list_ex (\<lambda>j. i_text j = i_text created) (targetArr t d)"
        using False tx by simp
      have ok: "texts_ok (contentWords (push_item t created d)) \<and>
                texts_ok (contentLetters (push_item t created d))"
        using dok new trimmed
        by (cases t) (simp_all add: push_item_def targetArr_def texts_ok_snoc)
      have "content_invariant (st1\<lparr> exercises :=
               save_exercise (push_item t created d) (exercises st1) \<rparr>)"
        using inv1 ok by (auto simp: content_invariant_def save_exercise_def list_all_iff)
      with False Some show ?thesis
        by (simp add: add_item_def Let_def st1_def d_def)
    qed
  qed
qed

lemma words_post_invariant:
  "content_invariant st \<Longrightarrow>
   content_invariant (fst (words_post st uid text ct difficulty cid upload nd ni now))"
  by (auto simp: words_post_def Let_def add_item_invariant
      split: sum.splits option.splits type_input.splits)

lemma content_add_invariant:
  "content_invariant st \<Longrightarrow>
   content_invariant (fst (content_add st uid text ct difficulty cid nd ni now))"
  by (auto simp: content_add_def add_item_invariant
      split: sum.splits option.splits type_input.splits)

lemma specialist_content_add_invariant:
  "content_invariant st \<Longrightarrow>
   content_invariant (fst (specialist_content_add st uid text ct difficulty cid nd ni now))"
  by (auto simp: specialist_content_add_def add_item_invariant
      split: sum.splits option.splits type_input.splits)

lemmas apple_defs = apple_def apple_item_def apple_doc_def

lemma protect_ok: "users st uid = Some me \<Longrightarrow> protect st uid = Inr me"
  by (simp add: protect_def)

lemma delete_item_ok:
  "texts_ok (contentWords d) \<and> texts_ok (contentLetters d) \<Longrightarrow>
   texts_ok (contentWords (delete_item c d)) \<and> texts_ok (contentLetters (delete_item c d))"
  by (simp add: delete_item_def texts_ok_def list_all_iff distinct_map_filter)

lemma save_delete_invariant:
  assumes "content_invariant st" "find P (exercises st) = Some d"
  shows "content_invariant (st\<lparr> exercises := save_exercise (delete_item c d) (exercises st) \<rparr>)"
proof -
  have "d \<in> set (exercises st)"
    using assms(2) by (auto simp: find_Some_iff)
  then have "texts_ok (contentWords d) \<and> texts_ok (contentLetters d)"
    using assms(1) by (simp add: content_invariant_def list_all_iff)
  then have "texts_ok (contentWords (delete_item c d)) \<and>
             texts_ok (contentLetters (delete_item c d))"
    by (rule delete_item_ok)
  then show ?thesis
    using assms(1) by (auto simp: content_invariant_def save_exercise_def list_all_iff)
qed

lemma delete_invariant:
  assumes "content_invariant st"
  shows "content_invariant (fst (words_delete st uid c)) \<and>
         content_invariant (fst (content_delete st uid c)) \<and>
         content_invariant (fst (specialist_content_delete st uid c))"
  using assms
  by (simp add: words_delete_def content_delete_def specialist_content_delete_def
      save_delete_invariant split: sum.split option.split)

lemma words_post_duplicate:
  assumes "users st uid = Some me" "text \<noteq> []"
    and "find (is_content_of X) (exercises st) = Some d"
    and "list_ex (\<lambda>i. i_text i = trim text) (targetArr t d)"
  shows "words_post st uid text (Type t) difficulty (Some X) upload nd ni now =
           (st, Inl (Failure 400 (Already_exists t)))"
  using assms(2) protect_ok [OF assms(1)] add_item_duplicate [OF assms(3,4)]
  by (simp add: words_post_def)

lemma content_add_duplicate:
  assumes "users st uid = Some me" "text \<noteq> []"
    and "find (is_content_of X) (exercises st) = Some d"
    and "list_ex (\<lambda>i. i_text i = trim text) (targetArr t d)"
  shows "fst (content_add st uid text (Type t) difficulty (Some X) nd ni now) = st"
    and "\<exists>m. snd (content_add st uid text (Type t) difficulty (Some X) nd ni now) =
            Inl (Failure 400 m)"
    and "difficulty \<noteq> Other_difficulty \<Longrightarrow> length text \<le> (if t = Letter then 1 else 20) \<Longrightarrow>
         content_add st uid text (Type t) difficulty (Some X) nd ni now =
           (st, Inl (Failure 400 (Already_exists t)))"
  using assms(2) protect_ok [OF assms(1)] add_item_duplicate [OF assms(3,4)]
  by (cases t; simp add: content_add_def)+

lemma words_post_fresh:
  assumes "users st uid = Some me" "text \<noteq> []"
    and "\<not> list_ex (\<lambda>i. i_text i = trim text)
            (case find (is_content_of Y) (exercises st) of
               None \<Rightarrow> [] | Some d0 \<Rightarrow> targetArr t d0)"
    and "trim text \<noteq> []" "difficulty \<noteq> Other_difficulty"
  shows "\<exists>st' created d'.
     words_post st uid text (Type t) difficulty (Some Y) upload nd ni now = (st', Inr created) \<and>
     i_text created = trim text \<and>
     find (is_content_of Y) (exercises st') = Some d' \<and>
     targetArr t d' =
       (case find (is_content_of Y) (exercises st) of
          None \<Rightarrow> [] | Some d0 \<Rightarrow> targetArr t d0) @ [created]"
  using assms(2) protect_ok [OF assms(1)] add_item_fresh [OF assms(3,4,5)]
  by (simp add: words_post_def)

lemma content_add_fresh:
  assumes "users st uid = Some me" "text \<noteq> []"
    and "\<not> list_ex (\<lambda>i. i_text i = trim text)
            (case find (is_content_of Y) (exercises st) of
               None \<Rightarrow> [] | Some d0 \<Rightarrow> targetArr t d0)"
    and "trim text \<noteq> []" "difficulty \<noteq> Other_difficulty"
    and "length text \<le> (if t = Letter then 1 else 20)"
  shows "\<exists>st' created d'.
     content_add st uid text (Type t) difficulty (Some Y) nd ni now = (st', Inr created) \<and>
     i_text created = trim text \<and>
     find (is_content_of Y) (exercises st') = Some d' \<and>
     targetArr t d' =
       (case find (is_content_of Y) (exercises st) of
          None \<Rightarrow> [] | Some d0 \<Rightarrow> targetArr t d0) @ [created]"
  using assms(2,5,6) protect_ok [OF assms(1)] add_item_fresh [OF assms(3,4,5)]
  by (cases t; simp add: content_add_def)

section \<open>Duplicate texts\<close>

text \<open>
  Claim C6, for an authenticated caller and a non-empty \<^verbatim>\<open>text\<close>. If child \<open>X\<close> has a
  content document whose target sub-collection holds an item with the trimmed text, then
  \<^verbatim>\<open>POST /api/words\<close> answers 400 with the message that the item already exists and
  leaves the store as it was; \<^verbatim>\<open>POST /api/content/add\<close> leaves the store as it was and
  answers 400, with that same message whenever its earlier validations pass. If the
  target sub-collection of a child \<open>Y\<close> does not hold the trimmed text (whatever other
  children hold), the trimmed text is not empty and the difficulty is valid, the item is
  added at the end of that sub-collection, with the trimmed text. Every add and delete
  route keeps the invariant of the content documents, under which no sub-collection
  holds two items with the same trimmed text.
\<close>

theorem content_texts_stay_unique:
  assumes auth: "users st uid = Some me" and given: "text \<noteq> []"
  shows
   "(\<forall>d. find (is_content_of X) (exercises st) = Some d \<and>
         list_ex (\<lambda>i. i_text i = trim text) (targetArr t d) \<longrightarrow>
       words_post st uid text (Type t) difficulty (Some X) upload nd ni now =
         (st, Inl (Failure 400 (Already_exists t))) \<and>
       fst (content_add st uid text (Type t) difficulty (Some X) nd ni now) = st \<and>
       (\<exists>m. snd (content_add st uid text (Type t) difficulty (Some X) nd ni now) =
          Inl (Failure 400 m)) \<and>
       (difficulty \<noteq> Other_difficulty \<and> length text \<le> (if t = Letter then 1 else 20) \<longrightarrow>
          content_add st uid text (Type t) difficulty (Some X) nd ni now =
            (st, Inl (Failure 400 (Already_exists t))))) \<and>
    (\<not> list_ex (\<lambda>i. i_text i = trim text)
         (case find (is_content_of Y) (exercises st) of
            None \<Rightarrow> [] | Some d0 \<Rightarrow> targetArr t d0) \<and>
     trim text \<noteq> [] \<and> difficulty \<noteq> Other_difficulty \<longrightarrow>
       (\<exists>st' created d'.
          words_post st uid text (Type t) difficulty (Some Y) upload nd ni now =
            (st', Inr created) \<and>
          i_text created = trim text \<and>
          find (is_content_of Y) (exercises st') = Some d' \<and>
          targetArr t d' =
            (case find (is_content_of Y) (exercises st) of
               None \<Rightarrow> [] | Some d0 \<Rightarrow> targetArr t d0) @ [created]) \<and>
       (length text \<le> (if t = Letter then 1 else 20) \<longrightarrow>
        (\<exists>st' created d'.
          content_add st uid text (Type t) difficulty (Some Y) nd ni now =
            (st', Inr created) \<and>
          i_text created = trim text \<and>
          find (is_content_of Y) (exercises st') = Some d' \<and>
          targetArr t d' =
            (case find (is_content_of Y) (exercises st) of
               None \<Rightarrow> [] | Some d0 \<Rightarrow> targetArr t d0) @ [created]))) \<and>
    (content_invariant st \<longrightarrow>
       content_invariant (fst (words_post st uid text ct difficulty cid upload nd ni now)) \<and>
       content_invariant (fst (content_add st uid text ct difficulty cid nd ni now)) \<and>
       content_invariant (fst (specialist_content_add st uid text ct difficulty cid nd ni now)) \<and>
       content_invariant (fst (words_delete st uid c)) \<and>
       content_invariant (fst (content_delete st uid c)) \<and>
       content_invariant (fst (specialist_content_delete st uid c)) \<and>
       list_all (\<lambda>e. distinct (map (\<lambda>i. trim (i_text i)) (contentWords e)) \<and>
                      distinct (map (\<lambda>i. trim (i_text i)) (contentLetters e)))
         (exercises st))"
proof (intro conjI allI impI)
  fix d
  assume d: "find (is_content_of X) (exercises st) = Some d \<and>
             list_ex (\<lambda>i. i_text i = trim text) (targetArr t d)"
  then have d1: "find (is_content_of X) (exercises st) = Some d"
    and d2: "list_ex (\<lambda>i. i_text i = trim text) (targetArr t d)" by simp_all
  show "words_post st uid text (Type t) difficulty (Some X) upload nd ni now =
         (st, Inl (Failure 400 (Already_exists t)))"
    by (rule words_post_duplicate [OF auth given d1 d2])
  show "fst (content_add st uid text (Type t) difficulty (Some X) nd ni now) = st"
    by (rule content_add_duplicate(1) [OF auth given d1 d2])
  show "\<exists>m. snd (content_add st uid text (Type t) difficulty (Some X) nd ni now) =
          Inl (Failure 400 m)"
    by (rule content_add_duplicate(2) [OF auth given d1 d2])
  assume "difficulty \<noteq> Other_difficulty \<and> length text \<le> (if t = Letter then 1 else 20)"
  then show "content_add st uid text (Type t) difficulty (Some X) nd ni now =
            (st, Inl (Failure 400 (Already_exists t)))"
    using content_add_duplicate(3) [OF auth given d1 d2] by blast
next
  assume f: "\<not> list_ex (\<lambda>i. i_text i = trim text)
         (case find (is_content_of Y) (exercises st) of
            None \<Rightarrow> [] | Some d0 \<Rightarrow> targetArr t d0) \<and>
     trim text \<noteq> [] \<and> difficulty \<noteq> Other_difficulty"
  then have f1: "\<not> list_ex (\<lambda>i. i_text i = trim text)
         (case find (is_content_of Y) (exercises st) of
            None \<Rightarrow> [] | Some d0 \<Rightarrow> targetArr t d0)"
    and f2: "trim text \<noteq> []" and f3: "difficulty \<noteq> Other_difficulty" by simp_all
  show "\<exists>st' created d'.
          words_post st uid text (Type t) difficulty (Some Y) upload nd ni now =
            (st', Inr created) \<and>
          i_text created = trim text \<and>
          find (is_content_of Y) (exercises st') = Some d' \<and>
          targetArr t d' =
            (case find (is_content_of Y) (exercises st) of
               None \<Rightarrow> [] | Some d0 \<Rightarrow> targetArr t d0) @ [created]"
    by (rule words_post_fresh [OF auth given f1 f2 f3])
  assume "length text \<le> (if t = Letter then 1 else 20)"
  then show "\<exists>st' created d'.
          content_add st uid text (Type t) difficulty (Some Y) nd ni now =
            (st', Inr created) \<and>
          i_text created = trim text \<and>
          find (is_content_of Y) (exercises st') = Some d' \<and>
          targetArr t d' =
            (case find (is_content_of Y) (exercises st) of
               None \<Rightarrow> [] | Some d0 \<Rightarrow> targetArr t d0) @ [created]"
    by (rule content_add_fresh [OF auth given f1 f2 f3])
next
  assume inv: "content_invariant st"
  show "content_invariant (fst (words_post st uid text ct difficulty cid upload nd ni now))"
    by (rule words_post_invariant [OF inv])
  show "content_invariant (fst (content_add st uid text ct difficulty cid nd ni now))"
    by (rule content_add_invariant [OF inv])
  show "content_invariant (fst (specialist_content_add st uid text ct difficulty cid nd ni now))"
    by (rule specialist_content_add_invariant [OF inv])
  show "content_invariant (fst (words_delete st uid c))"
    "content_invariant (fst (content_delete st uid c))"
    "content_invariant (fst (specialist_content_delete st uid c))"
    using delete_invariant [OF inv] by simp_all
  show "list_all (\<lambda>e. distinct (map (\<lambda>i. trim (i_text i)) (contentWords e)) \<and>
                      distinct (map (\<lambda>i. trim (i_text i)) (contentLetters e)))
         (exercises st)"
    using inv by (simp add: content_invariant_def list_all_iff texts_ok_trimmed_distinct)
qed

text \<open>
  The scenario of the specification: the word is stored for child 10; adding it again
  for child 10 is refused, adding it for child 11 succeeds.
\<close>

lemma store6_facts:
  "users store6 1 = Some demo_parent"
  "find (is_content_of 10) (exercises store6) = Some apple_doc"
  "find (is_content_of 11) (exercises store6) = None"
  "list_ex (\<lambda>i. i_text i = trim apple) (targetArr Word apple_doc)"
  "trim apple = apple" "apple \<noteq> []"
  "content_invariant store6"
  by (simp_all add: store6_def apple_defs is_content_of_def targetArr_def trim_def
      is_whitespace_def content_invariant_def texts_ok_def)

theorem content_texts_stay_unique_witness:
  "users store6 1 = Some demo_parent \<and> apple \<noteq> [] \<and>
   find (is_content_of 10) (exercises store6) = Some apple_doc \<and>
   list_ex (\<lambda>i. i_text i = trim apple) (targetArr Word apple_doc) \<and>
   words_post store6 1 apple (Type Word) No_difficulty (Some 10) None 51 501 7 =
     (store6, Inl (Failure 400 (Already_exists Word))) \<and>
   content_add store6 1 apple (Type Word) No_difficulty (Some 10) 51 501 7 =
     (store6, Inl (Failure 400 (Already_exists Word))) \<and>
   (\<exists>st' created d'.
      words_post store6 1 apple (Type Word) No_difficulty (Some 11) None 51 501 7 =
        (st', Inr created) \<and>
      i_text created = apple \<and>
      find (is_content_of 11) (exercises st') = Some d' \<and>
      targetArr Word d' = [created]) \<and>
   content_invariant store6 \<and>
   content_invariant
     (fst (words_post store6 1 apple (Type Word) No_difficulty (Some 11) None 51 501 7))"
proof -
  note t = content_texts_stay_unique [OF store6_facts(1) store6_facts(6),
      where X = 10 and Y = 11 and t = Word and difficulty = No_difficulty and upload = None
        and nd = 51 and ni = 501 and now = 7 and ct = "Type Word" and cid = "Some 11"]
  have len: "length apple \<le> (if Word = Letter then 1 else 20)"
    by (simp add: apple_def)
  have a: "words_post store6 1 apple (Type Word) No_difficulty (Some 10) None 51 501 7 =
     (store6, Inl (Failure 400 (Already_exists Word)))"
    using t store6_facts(2,4) by blast
  have b: "content_add store6 1 apple (Type Word) No_difficulty (Some 10) 51 501 7 =
     (store6, Inl (Failure 400 (Already_exists Word)))"
    using t store6_facts(2,4) len by blast
  have fresh: "\<not> list_ex (\<lambda>i. i_text i = trim apple)
         (case find (is_content_of 11) (exercises store6) of
            None \<Rightarrow> [] | Some d0 \<Rightarrow> targetArr Word d0)"
    by (simp add: store6_facts(3))
  have ne: "trim apple \<noteq> []" by (simp add: store6_facts)
  have "\<exists>st' created d'.
          words_post store6 1 apple (Type Word) No_difficulty (Some 11) None 51 501 7 =
            (st', Inr created) \<and>
          i_text created = trim apple \<and>
          find (is_content_of 11) (exercises st') = Some d' \<and>
          targetArr Word d' =
            (case find (is_content_of 11) (exercises store6) of
               None \<Rightarrow> [] | Some d0 \<Rightarrow> targetArr Word d0) @ [created]"
    using t fresh ne by blast
  then have c: "\<exists>st' created d'.
      words_post store6 1 apple (Type Word) No_difficulty (Some 11) None 51 501 7 =
        (st', Inr created) \<and>
      i_text created = apple \<and>
      find (is_content_of 11) (exercises st') = Some d' \<and>
      targetArr Word d' = [created]"
    by (simp add: store6_facts(3,5))
  have d: "content_invariant
     (fst (words_post store6 1 apple (Type Word) No_difficulty (Some 11) None 51 501 7))"
    using t store6_facts(7) by blast
  from store6_facts(1,6,2,4) a b c store6_facts(7) d show ?thesis
    by (intro conjI)
qed

section \<open>Length of the text\<close>

text \<open>
  Claim C7 says that adding an item validates the length of the text before appending.
  \<^verbatim>\<open>POST /api/content/add\<close> does (a letter of more than one code unit and a word of more
  than 20 are refused), \<^verbatim>\<open>POST /api/specialist/content/add\<close> does (two and 20), but
  \<^verbatim>\<open>POST /api/words\<close> has no such check: it stores a word of 21 code units and a letter
  of three, which \<^verbatim>\<open>POST /api/content/add\<close> refuses.
\<close>

theorem words_post_accepts_long_text:
  "length long_word = 21 \<and>
   map_sum id (\<lambda>i. length (i_text i))
     (snd (words_post store0 1 long_word (Type Word) No_difficulty (Some 10) None 50 500 7))
     = Inr 21 \<and>
   map_sum id (\<lambda>i. length (i_text i))
     (snd (words_post store0 1 (units ''abc'') (Type Letter) No_difficulty (Some 10) None 50 500 7))
     = Inr 3 \<and>
   snd (content_add store0 1 long_word (Type Word) No_difficulty (Some 10) 50 500 7)
     = Inl (Failure 400 Word_max_20) \<and>
   snd (content_add store0 1 (units ''abc'') (Type Letter) No_difficulty (Some 10) 50 500 7)
     = Inl (Failure 400 Letter_must_be_single_character)"
  by (simp add: long_word_def words_post_def content_add_def protect_def store0_def
      add_item_def getOrCreateContentDoc_def Let_def is_content_of_def targetArr_def
      new_item_def trim_def is_whitespace_def units_def)

section \<open>Deleting content\<close>

text \<open>
  Claim C9 says that the specialist route answers with an authorization failure when
  the owning child is not assigned to the caller. When the child is assigned to nobody,
  \<^verbatim>\<open>child.assignedSpecialist.toString()\<close> throws and the route answers 500 (the sibling
  routes test \<^verbatim>\<open>!child.assignedSpecialist\<close> first). Child 10 of this store has no
  specialist and owns item 500.
\<close>

theorem specialist_delete_unassigned_child:
  "map_option assignedSpecialist (find_child (children store6) 10) = Some None \<and>
   find (has_item 500) (exercises store6) = Some apple_doc \<and>
   specialist_content_delete store6 2 500 =
     (store6, Inl (Failure 500 Error_deleting_content))"
  by (simp add: specialist_content_delete_def protect_def store6_def apple_defs demo_defs
      has_item_def find_child_def)

section \<open>Rounding to a double\<close>

lemma pow2_powi: "pow2 k = 2 powi k"
  by (simp add: pow2_def power_int_def power_one_over inverse_eq_divide)

lemma pow2_pos: "0 < pow2 k"
  by (simp add: pow2_powi)

lemma pow2_mono: "a \<le> b \<Longrightarrow> pow2 a \<le> pow2 b"
  by (simp add: pow2_powi power_int_increasing)

lemma pow2_less_imp: "pow2 a < pow2 b \<Longrightarrow> a < b"
  using pow2_mono [of b a] by (cases "a < b") simp_all

text \<open>\<open>ilog2\<close> is the binary exponent.\<close>

lemma ilog2_bounds:
  assumes "0 < a"
  shows "pow2 (ilog2 a) \<le> a \<and> a < pow2 (ilog2 a + 1)"
proof (cases "1 \<le> a")
  case True
  define n where "n = nat \<lfloor>a\<rfloor>"
  define L where "L = floorlog 2 n"
  have n: "0 < n" using True by (simp add: n_def)
  from floorlog_bounds [OF n, of 2] have b: "2 ^ (L - 1) \<le> n" "n < 2 ^ L"
    by (simp_all add: L_def)
  have L: "0 < L" using n by (simp add: L_def floorlog_def)
  have na: "rat_of_nat n \<le> a" "a < rat_of_nat n + 1"
    using True by (simp_all add: n_def) linarith+
  have e: "ilog2 a = int (L - 1)"
    using True L by (simp add: ilog2_def n_def L_def)
  have "pow2 (ilog2 a) = 2 ^ (L - 1)" by (simp add: e pow2_def)
  also have "\<dots> = rat_of_nat (2 ^ (L - 1))" by simp
  also have "\<dots> \<le> rat_of_nat n" using b(1) by (simp only: of_nat_le_iff)
  finally have lo: "pow2 (ilog2 a) \<le> a" using na(1) by simp
  have "n + 1 \<le> 2 ^ L" using b(2) by simp
  then have "rat_of_nat (n + 1) \<le> rat_of_nat (2 ^ L)" by (simp only: of_nat_le_iff)
  then have "rat_of_nat n + 1 \<le> 2 ^ L" by simp
  moreover have "pow2 (ilog2 a + 1) = 2 ^ L"
    using L by (simp add: e pow2_def nat_add_distrib)
  ultimately have "a < pow2 (ilog2 a + 1)" using na(2) by simp
  with lo show ?thesis by simp
next
  case False
  define c where "c = \<lceil>1 / a\<rceil>"
  define n where "n = nat (c - 1)"
  define L where "L = floorlog 2 n"
  have b1: "1 < 1 / a" using False assms by (simp add: field_simps)
  have c2: "2 \<le> c" using b1 unfolding c_def by linarith
  have n: "0 < n" using c2 by (simp add: n_def)
  have cn: "c = int n + 1" using c2 by (simp add: n_def)
  from floorlog_bounds [OF n, of 2] have b: "2 ^ (L - 1) \<le> n" "n < 2 ^ L"
    by (simp_all add: L_def)
  have L: "0 < L" using n by (simp add: L_def floorlog_def)
  have ca: "1 / a \<le> of_int c" "of_int c - 1 < 1 / a"
    unfolding c_def by linarith+
  have e: "ilog2 a = - int L"
    using False by (simp add: ilog2_def n_def L_def c_def)
  have "n + 1 \<le> 2 ^ L" using b(2) by simp
  then have "rat_of_nat (n + 1) \<le> rat_of_nat (2 ^ L)" by (simp only: of_nat_le_iff)
  then have "1 / a \<le> 2 ^ L" using ca(1) by (simp add: cn)
  then have "1 \<le> 2 ^ L * a" using assms by (simp add: field_simps)
  then have lo: "pow2 (ilog2 a) \<le> a"
    using L by (simp add: e pow2_def field_simps)
  have "rat_of_nat (2 ^ (L - 1)) \<le> rat_of_nat n" by (rule of_nat_mono [OF b(1)])
  then have "(2::rat) ^ (L - 1) \<le> rat_of_nat n" unfolding of_nat_power of_nat_numeral .
  moreover have "rat_of_nat n < 1 / a" using ca(2) by (simp add: cn)
  ultimately have "2 ^ (L - 1) < 1 / a" by (rule le_less_trans)
  then have hi': "a * 2 ^ (L - 1) < 1" using assms by (simp add: field_simps)
  have "pow2 (ilog2 a + 1) = 1 / 2 ^ (L - 1)"
  proof (cases "L = 1")
    case True then show ?thesis by (simp add: e pow2_def)
  next
    case False
    with L have "1 < L" by simp
    then have "nat (int L - 1) = L - 1" by simp
    with \<open>1 < L\<close> show ?thesis by (simp add: e pow2_def)
  qed
  moreover have "a < 1 / 2 ^ (L - 1)" using hi' by (simp add: field_simps)
  ultimately have "a < pow2 (ilog2 a + 1)" by (simp only:)
  with lo show ?thesis by simp
qed

lemma ilog2_unique:
  assumes "pow2 e \<le> a" "a < pow2 (e + 1)"
  shows "ilog2 a = e"
proof -
  have pos: "0 < a" using assms(1) pow2_pos [of e] by simp
  from ilog2_bounds [OF pos] have b: "pow2 (ilog2 a) \<le> a" "a < pow2 (ilog2 a + 1)" by simp_all
  have "pow2 e < pow2 (ilog2 a + 1)" using assms(1) b(2) by simp
  then have 1: "e < ilog2 a + 1" by (rule pow2_less_imp)
  have "pow2 (ilog2 a) < pow2 (e + 1)" using assms(2) b(1) by simp
  then have 2: "ilog2 a < e + 1" by (rule pow2_less_imp)
  from 1 2 show ?thesis by simp
qed

lemma round_half_even_near:
  assumes "\<bar>r - of_int m\<bar> < 1 / 2"
  shows "round_half_even r = m"
proof -
  have "\<lfloor>r\<rfloor> = m \<or> \<lfloor>r\<rfloor> = m - 1" using assms by linarith
  then show ?thesis
  proof
    assume f: "\<lfloor>r\<rfloor> = m"
    then have "r - of_int m < 1 / 2" using assms by linarith
    then show ?thesis by (simp add: round_half_even_def f Let_def)
  next
    assume f: "\<lfloor>r\<rfloor> = m - 1"
    have "1 / 2 < r - (of_int m - 1)" using assms by linarith
    then have "1 / 2 < r - of_int (m - 1)" by simp
    then show ?thesis by (simp add: round_half_even_def f Let_def del: of_int_diff)
  qed
qed

text \<open>
  A positive \<open>a\<close> in the binade of \<open>e\<close> rounds to the multiple \<open>m\<close> of \<open>2 ^ (e - 52)\<close> that
  is less than half a unit away.
\<close>

lemma to_double_positive:
  assumes "pow2 e \<le> a" "a < pow2 (e + 1)" "- 1022 \<le> e"
    and "\<bar>a / pow2 (e - 52) - of_int m\<bar> < 1 / 2"
    and "of_int m * pow2 (e - 52) < pow2 1024"
  shows "to_double a = Finite (of_int m * pow2 (e - 52))"
proof -
  have pos: "0 < a" using assms(1) pow2_pos [of e] by simp
  have e: "max (ilog2 a) (- 1022) = e"
    using ilog2_unique [OF assms(1,2)] assms(3) by simp
  have r: "round_half_even (a / pow2 (e - 52)) = m"
    by (rule round_half_even_near [OF assms(4)])
  show ?thesis
    using pos assms(5) by (simp add: to_double_def Let_def e r)
qed

text \<open>A natural number below \<open>2 ^ 53\<close> is a double.\<close>

lemma to_double_of_nat:
  assumes "k < 2 ^ 53"
  shows "to_double (of_nat k) = Finite (of_nat k)"
proof (cases "k = 0")
  case True then show ?thesis by (simp add: to_double_def)
next
  case False
  define a where "a = rat_of_nat k"
  define e where "e = ilog2 a"
  have a1: "1 \<le> a" using False by (simp add: a_def)
  have L: "0 < floorlog 2 k" using False by (simp add: floorlog_def)
  have "floorlog 2 k \<le> 53" using assms by (simp add: floorlog_le_iff)
  then have e_range: "0 \<le> e" "e \<le> 52"
    using a1 L by (simp_all add: e_def ilog2_def a_def)
  from ilog2_bounds [of a] a1 have b: "pow2 e \<le> a" "a < pow2 (e + 1)"
    by (simp_all add: e_def)
  define d where "d = nat (52 - e)"
  have q: "pow2 (e - 52) = 1 / 2 ^ d"
    using e_range by (cases "e = 52") (simp_all add: pow2_def d_def)
  have "a / pow2 (e - 52) = of_int (int k * 2 ^ d)" by (simp add: q a_def)
  then have m: "\<bar>a / pow2 (e - 52) - of_int (int k * 2 ^ d)\<bar> < 1 / 2" by simp
  have v: "of_int (int k * 2 ^ d) * pow2 (e - 52) = a" by (simp add: q a_def)
  have "a < 2 ^ 53" using assms unfolding a_def
    by (metis of_nat_less_iff of_nat_numeral of_nat_power)
  also have "\<dots> < pow2 1024" by (simp add: pow2_def)
  finally have lt: "a < pow2 1024" .
  have bound: "of_int (int k * 2 ^ d) * pow2 (e - 52) < pow2 1024"
    unfolding v by (rule lt)
  have low: "- 1022 \<le> e" using e_range by simp
  from to_double_positive [OF b low m bound] show ?thesis
    unfolding v a_def .
qed

lemma to_double_numeral:
  "numeral n < (2::nat) ^ 53 \<Longrightarrow> to_double (numeral n) = Finite (numeral n)"
  using to_double_of_nat [of "numeral n"] by simp

lemma to_double_0: "to_double 0 = Finite 0"
  by (simp add: to_double_def)

lemma to_double_1: "to_double 1 = Finite 1"
  using to_double_of_nat [of 1] by simp

lemma to_double_minus:
  "to_double x = Finite v \<Longrightarrow> to_double (- x) = Finite (- v)"
  by (auto simp: to_double_def Let_def split: if_splits)

lemma to_double_neg_numeral:
  "numeral n < (2::nat) ^ 53 \<Longrightarrow> to_double (- numeral n) = Finite (- numeral n)"
  by (rule to_double_minus) (rule to_double_numeral)

lemmas double_simps = to_double_numeral to_double_neg_numeral to_double_0 to_double_1

text \<open>
  \<open>57 / 100\<close> rounds to \<open>5134103575202365 / 2 ^ 53\<close>; a hundred times that is less than a
  quarter of a unit below \<open>8022036836253695 / 2 ^ 47\<close>, which is the double
  \<^verbatim>\<open>56.99999999999999\<close>, one unit below 57.
\<close>

lemma rate_57_of_100:
  "js_mul (js_div (Finite 57) (Finite 100)) (Finite 100) =
     Finite (8022036836253695 / 140737488355328)"
proof -
  have 1: "to_double (57 / 100) = Finite (5134103575202365 / 9007199254740992)"
    using to_double_positive [of "- 1" "57 / 100" 5134103575202365]
    by (simp add: pow2_def)
  have 2: "to_double (5134103575202365 / 9007199254740992 * 100) =
      Finite (8022036836253695 / 140737488355328)"
    using to_double_positive [of 5 "5134103575202365 / 9007199254740992 * 100"
        8022036836253695]
    by (simp add: pow2_def)
  have "js_div (Finite 57) (Finite 100) = Finite (5134103575202365 / 9007199254740992)"
    using 1 by simp
  then show ?thesis using 2 by (simp only: js_mul.simps)
qed

text \<open>
  \<open>7 / 10\<close> rounds to \<open>3152519739159347 / 2 ^ 52\<close>; a hundred times that is less than a
  tenth of a unit above 70, and rounds to 70.
\<close>

lemma rate_7_of_10:
  "js_mul (js_div (Finite 7) (Finite 10)) (Finite 100) = Finite 70"
proof -
  have 1: "to_double (7 / 10) = Finite (3152519739159347 / 4503599627370496)"
    using to_double_positive [of "- 1" "7 / 10" 6305039478318694]
    by (simp add: pow2_def)
  have 2: "to_double (3152519739159347 / 4503599627370496 * 100) = Finite 70"
    using to_double_positive [of 6 "3152519739159347 / 4503599627370496 * 100"
        4925812092436480]
    by (simp add: pow2_def)
  have "js_div (Finite 7) (Finite 10) = Finite (3152519739159347 / 4503599627370496)"
    using 1 by simp
  then show ?thesis using 2 by (simp only: js_mul.simps)
qed

section \<open>Progress: the rollup and the two append routes\<close>

lemma updateOverallStats_fold:
  "overallStats (updateOverallStats p) = fold_stats (sessions p)"
  by (simp add: updateOverallStats_def fold_stats_def js_sum_def foldl_map Let_def)

lemma updateOverallStats_fields:
  "sessions (updateOverallStats p) = sessions p"
  "p_child (updateOverallStats p) = p_child p"
  "p_id (updateOverallStats p) = p_id p"
  by (simp_all add: updateOverallStats_def Let_def)

text \<open>Whole counters whose sum is below \<open>2 ^ 53\<close> are added without rounding.\<close>

lemma js_sum_counts:
  "list_all (\<lambda>s. is_count (f s)) ss \<Longrightarrow>
   sum_list (map (\<lambda>s. count_of (f s)) ss) < 2 ^ 53 \<Longrightarrow>
   js_sum (map (\<lambda>s. or0 (f s)) ss) = Finite (of_nat (sum_list (map (\<lambda>s. count_of (f s)) ss)))"
proof (induction ss rule: rev_induct)
  case Nil
  show ?case by (simp add: js_sum_def)
next
  case (snoc x xs)
  let ?S = "sum_list (map (\<lambda>s. count_of (f s)) xs)"
  from snoc.prems have all: "list_all (\<lambda>s. is_count (f s)) xs" and x: "is_count (f x)"
    and lt: "?S + count_of (f x) < 2 ^ 53"
    by simp_all
  from lt have "?S < 2 ^ 53" by simp
  from snoc.IH [OF all this]
  have "js_sum (map (\<lambda>s. or0 (f s)) (xs @ [x])) =
      js_add (Finite (of_nat ?S)) (or0 (f x))"
    by (simp add: js_sum_def)
  also have "\<dots> = to_double (of_nat (?S + count_of (f x)))"
    using x by (simp add: is_count_def)
  also have "\<dots> = Finite (of_nat (?S + count_of (f x)))"
    by (rule to_double_of_nat [OF lt])
  finally show ?case by simp
qed

lemma find_progress_child: "find_progress ps cid = Some p \<Longrightarrow> p_child p = cid"
  by (auto simp: find_progress_def find_Some_iff)

lemma find_or_create_cases:
  "find_or_create_progress fails st cid nid now = (st1, r) \<Longrightarrow>
   (r = Inl (Failure 500 Error_message) \<and> st1 = st \<and>
      (fails Find_progress \<or> fails Create_progress)) \<or>
   (\<exists>p. r = Inr p \<and> find_progress (progress st1) cid = Some p \<and>
      \<not> fails Find_progress \<and>
      sessions p = (case find_progress (progress st) cid of
                      None \<Rightarrow> [] | Some q \<Rightarrow> sessions q) \<and>
      children st1 = children st \<and> notifications st1 = notifications st)"
  by (auto simp: find_or_create_progress_def find_progress_def new_progress_def
      find_append_new split: if_splits option.splits)

lemma find_or_create_ok:
  "\<not> fails Find_progress \<Longrightarrow> \<not> fails Create_progress \<Longrightarrow>
   \<exists>st1 p. find_or_create_progress fails st cid nid now = (st1, Inr p)"
  by (simp add: find_or_create_progress_def split: option.splits)

lemma find_progress_saved:
  assumes "find_progress ps cid = Some p" "p_child p' = cid" "p_id p' = p_id p"
  shows "find_progress (save_progress p' ps) cid = Some p'"
  unfolding find_progress_def save_progress_def assms(3)
  by (rule find_replace [OF assms(1) [unfolded find_progress_def]]) (rule assms(2))

text \<open>
  Both routes append \<open>new\<close>, the sessions of the body with the defaults filled in, to the
  sessions of the document and recompute the statistics.
\<close>

lemma progress_sync_result:
  assumes run: "progress_sync fails st uid cid (Some ss) nid now = (st', Inr p')"
  shows "sessions p' = (case find_progress (progress st) cid of
                          None \<Rightarrow> [] | Some q \<Rightarrow> sessions q) @ map (session_defaults now) ss"
    and "overallStats p' = fold_stats (sessions p')"
    and "p_child p' = cid"
    and "find_progress (progress st') cid = Some p'"
proof -
  let ?new = "map (session_defaults now) ss"
  obtain st1 r where foc: "find_or_create_progress fails st cid nid now = (st1, r)"
    by (cases "find_or_create_progress fails st cid nid now") simp
  from run foc obtain p where r: "r = Inr p"
    by (cases r) (auto simp: progress_sync_def split: sum.splits)
  from find_or_create_cases [OF foc] r
  have p: "find_progress (progress st1) cid = Some p"
    "sessions p = (case find_progress (progress st) cid of
                     None \<Rightarrow> [] | Some q \<Rightarrow> sessions q)"
    by auto
  define q where "q = (updateOverallStats (p\<lparr> sessions := sessions p @ ?new \<rparr>))
                     \<lparr> lastSyncDate := now \<rparr>"
  from run foc r have res: "p' = q"
    "progress st' = save_progress q (progress st1)"
    by (auto simp: progress_sync_def Let_def q_def split: sum.splits if_splits option.splits)
  have q: "sessions q = sessions p @ ?new" "p_child q = p_child p" "p_id q = p_id p"
    "overallStats q = fold_stats (sessions p @ ?new)"
    using updateOverallStats_fold [of "p\<lparr> sessions := sessions p @ ?new \<rparr>"]
    by (simp_all add: q_def updateOverallStats_fields)
  show "sessions p' = (case find_progress (progress st) cid of
                          None \<Rightarrow> [] | Some q \<Rightarrow> sessions q) @ ?new"
    by (simp add: res q p(2))
  show "overallStats p' = fold_stats (sessions p')"
    by (simp add: res q)
  show "p_child p' = cid"
    using find_progress_child [OF p(1)] by (simp add: res q)
  show "find_progress (progress st') cid = Some p'"
    using find_progress_saved [OF p(1), of q] find_progress_child [OF p(1)]
    by (simp add: res q)
qed

lemma progress_session_result:
  assumes run: "progress_session fails st uid cid sd nid now = (st', Inr p')"
  shows "sessions p' = (case find_progress (progress st) cid of
                          None \<Rightarrow> [] | Some q \<Rightarrow> sessions q) @ [session_defaults now sd]"
    and "overallStats p' = fold_stats (sessions p')"
    and "p_child p' = cid"
    and "find_progress (progress st') cid = Some p'"
proof -
  let ?new = "[session_defaults now sd]"
  obtain st1 r where foc: "find_or_create_progress fails st cid nid now = (st1, r)"
    by (cases "find_or_create_progress fails st cid nid now") simp
  from run foc obtain p where r: "r = Inr p"
    by (cases r) (auto simp: progress_session_def split: sum.splits)
  from find_or_create_cases [OF foc] r
  have p: "find_progress (progress st1) cid = Some p"
    "sessions p = (case find_progress (progress st) cid of
                     None \<Rightarrow> [] | Some q \<Rightarrow> sessions q)"
    by auto
  define q where "q = (updateOverallStats (p\<lparr> sessions := sessions p @ ?new \<rparr>))
                     \<lparr> lastSyncDate := now \<rparr>"
  from run foc r have res: "p' = q" "st' = st1\<lparr> progress := save_progress q (progress st1) \<rparr>"
    by (auto simp: progress_session_def Let_def q_def split: sum.splits if_splits)
  have q: "sessions q = sessions p @ ?new" "p_child q = p_child p" "p_id q = p_id p"
    "overallStats q = fold_stats (sessions p @ ?new)"
    using updateOverallStats_fold [of "p\<lparr> sessions := sessions p @ ?new \<rparr>"]
    by (simp_all add: q_def updateOverallStats_fields)
  show "sessions p' = (case find_progress (progress st) cid of
                          None \<Rightarrow> [] | Some q \<Rightarrow> sessions q) @ ?new"
    by (simp add: res q p(2))
  show "overallStats p' = fold_stats (sessions p')"
    by (simp add: res q)
  show "p_child p' = cid"
    using find_progress_child [OF p(1)] by (simp add: res q)
  show "find_progress (progress st') cid = Some p'"
    using find_progress_saved [OF p(1), of q] find_progress_child [OF p(1)]
    by (simp add: res q)
qed

lemma progress_session_failure:
  assumes "users st uid = Some me"
    and "snd (progress_session fails st uid cid sd nid now) = Inl e"
  shows "e = Failure 500 Error_message \<and>
         (fails Find_progress \<or> fails Create_progress \<or> fails Save_progress)"
proof -
  obtain st1 r where foc: "find_or_create_progress fails st cid nid now = (st1, r)"
    by (cases "find_or_create_progress fails st cid nid now") simp
  from find_or_create_cases [OF foc] assms(2) protect_ok [OF assms(1)] foc
  show ?thesis
    by (auto simp: progress_session_def Let_def split: if_splits)
qed

lemma progress_sync_failure:
  assumes "users st uid = Some me"
    and "snd (progress_sync fails st uid cid (Some ss) nid now) = Inl e"
  shows "e = Failure 500 Error_message \<and>
         (fails Find_progress \<or> fails Create_progress \<or> fails Save_progress)"
proof -
  obtain st1 r where foc: "find_or_create_progress fails st cid nid now = (st1, r)"
    by (cases "find_or_create_progress fails st cid nid now") simp
  from find_or_create_cases [OF foc] assms(2) protect_ok [OF assms(1)] foc
  show ?thesis
    by (auto simp: progress_sync_def Let_def split: if_splits)
qed

lemma progress_session_success:
  assumes "users st uid = Some me"
    and "\<not> fails Find_progress" "\<not> fails Create_progress" "\<not> fails Save_progress"
  shows "\<exists>st' p'. progress_session fails st uid cid sd nid now = (st', Inr p')"
proof -
  from find_or_create_ok [OF assms(2,3)]
  obtain st1 p where "find_or_create_progress fails st cid nid now = (st1, Inr p)"
    by blast
  then show ?thesis
    using protect_ok [OF assms(1)] assms(4) by (simp add: progress_session_def Let_def)
qed

lemma progress_sync_success:
  assumes "users st uid = Some me"
    and "\<not> fails Find_progress" "\<not> fails Create_progress" "\<not> fails Save_progress"
  shows "\<exists>st' p'. progress_sync fails st uid cid (Some ss) nid now = (st', Inr p')"
proof -
  from find_or_create_ok [OF assms(2,3)]
  obtain st1 p where "find_or_create_progress fails st cid nid now = (st1, Inr p)"
    by blast
  then show ?thesis
    using protect_ok [OF assms(1)] assms(4) by (simp add: progress_sync_def Let_def)
qed

lemma updateOverallStats_eq:
  "updateOverallStats p = p\<lparr> overallStats := fold_stats (sessions p) \<rparr>"
  by (simp add: updateOverallStats_def fold_stats_def js_sum_def foldl_map Let_def)

lemma successRate_of_sums:
  "js_sum (map (\<lambda>s. or0 (s_successfulAttempts s)) xs) = a \<Longrightarrow>
   js_sum (map (\<lambda>s. or0 (s_totalAttempts s)) xs) = b \<Longrightarrow> js_positive b \<Longrightarrow>
   successRate (fold_stats xs) = js_mul (js_div a b) (Finite 100)"
  by (simp add: fold_stats_def)

lemma successRate_7_of_10:
  assumes "js_sum (map (\<lambda>s. or0 (s_successfulAttempts s)) xs) = Finite 7"
    and "js_sum (map (\<lambda>s. or0 (s_totalAttempts s)) xs) = Finite 10"
  shows "successRate (fold_stats xs) = Finite 70"
  using successRate_of_sums [OF assms] by (simp only: rate_7_of_10) simp

text \<open>
  Claim C5, as amended. After \<^verbatim>\<open>POST /api/progress/session\<close> or
  \<^verbatim>\<open>POST /api/progress/sync\<close> succeeds, the document's sessions are the former ones
  followed by the new one(s), with the defaults of the schema filled in, and
  \<^verbatim>\<open>overallStats\<close> is the fold of all of them in double arithmetic, where every sum,
  quotient and product is rounded to the nearest double: \<^verbatim>\<open>totalSessions\<close> is their
  number, \<^verbatim>\<open>totalPlayTime\<close> the sum from the left of the durations, \<^verbatim>\<open>totalAttempts\<close> the
  sum of the sessions' \<^verbatim>\<open>totalAttempts\<close>, \<^verbatim>\<open>successRate\<close> is the sum of
  \<^verbatim>\<open>successfulAttempts\<close> divided by \<^verbatim>\<open>totalAttempts\<close> and then multiplied by 100 when
  \<^verbatim>\<open>totalAttempts\<close> is greater than 0, and 0 otherwise, and \<^verbatim>\<open>averageScore\<close> the sum of
  the sessions' \<^verbatim>\<open>averageScore\<close> divided by their number, 0 without sessions. What is
  summed are the counters that the sessions report, not their attempt records. Counters
  that are whole numbers with a sum below \<open>2 ^ 53\<close> are added exactly; and when the
  sums of \<^verbatim>\<open>successfulAttempts\<close> and of \<^verbatim>\<open>totalAttempts\<close> are 7 and 10, over any number of
  sessions, the success rate is exactly 70.
\<close>

theorem overall_stats_after_append:
  "(snd (progress_session fails st uid cid sd nid now) = Inr p' \<longrightarrow>
      sessions p' = (case find_progress (progress st) cid of
                       None \<Rightarrow> [] | Some q \<Rightarrow> sessions q) @ [session_defaults now sd] \<and>
      overallStats p' = fold_stats (sessions p')) \<and>
   (snd (progress_sync fails st uid cid (Some ss) nid now) = Inr p'' \<longrightarrow>
      sessions p'' = (case find_progress (progress st) cid of
                        None \<Rightarrow> [] | Some q \<Rightarrow> sessions q) @ map (session_defaults now) ss \<and>
      overallStats p'' = fold_stats (sessions p'')) \<and>
   overallStats (updateOverallStats p) = fold_stats (sessions p) \<and>
   totalSessions (fold_stats xs) = Finite (of_nat (length xs)) \<and>
   totalPlayTime (fold_stats xs) = js_sum (map (\<lambda>s. or0 (s_duration s)) xs) \<and>
   totalAttempts (fold_stats xs) = js_sum (map (\<lambda>s. or0 (s_totalAttempts s)) xs) \<and>
   successRate (fold_stats xs) =
     (if js_positive (totalAttempts (fold_stats xs))
      then js_mul (js_div (js_sum (map (\<lambda>s. or0 (s_successfulAttempts s)) xs))
                          (totalAttempts (fold_stats xs)))
                  (Finite 100)
      else Finite 0) \<and>
   averageScore (fold_stats xs) =
     (if xs = [] then Finite 0
      else js_div (js_sum (map (\<lambda>s. or0 (s_averageScore s)) xs))
                  (Finite (of_nat (length xs)))) \<and>
   js_sum [] = Finite 0 \<and>
   js_sum (ys @ [y]) = js_add (js_sum ys) y \<and>
   js_add (Finite a) (Finite b) = to_double (a + b) \<and>
   (b \<noteq> 0 \<longrightarrow> js_div (Finite a) (Finite b) = to_double (a / b)) \<and>
   js_mul (Finite a) (Finite b) = to_double (a * b) \<and>
   (list_all (\<lambda>s. is_count (field s)) xs \<and>
    sum_list (map (\<lambda>s. count_of (field s)) xs) < 2 ^ 53 \<longrightarrow>
      js_sum (map (\<lambda>s. or0 (field s)) xs) =
        Finite (of_nat (sum_list (map (\<lambda>s. count_of (field s)) xs)))) \<and>
   (js_sum (map (\<lambda>s. or0 (s_successfulAttempts s)) xs) = Finite 7 \<and>
    js_sum (map (\<lambda>s. or0 (s_totalAttempts s)) xs) = Finite 10 \<longrightarrow>
      successRate (fold_stats xs) = Finite 70) \<and>
   (list_all (\<lambda>s. is_count (s_successfulAttempts s) \<and> is_count (s_totalAttempts s)) xs \<and>
    sum_list (map (\<lambda>s. count_of (s_successfulAttempts s)) xs) = 7 \<and>
    sum_list (map (\<lambda>s. count_of (s_totalAttempts s)) xs) = 10 \<longrightarrow>
      successRate (fold_stats xs) = Finite 70)"
proof (intro conjI impI)
  assume r: "snd (progress_session fails st uid cid sd nid now) = Inr p'"
  then obtain st' where run: "progress_session fails st uid cid sd nid now = (st', Inr p')"
    by (cases "progress_session fails st uid cid sd nid now") simp
  show "sessions p' = (case find_progress (progress st) cid of
                       None \<Rightarrow> [] | Some q \<Rightarrow> sessions q) @ [session_defaults now sd]"
    by (rule progress_session_result(1) [OF run])
  show "overallStats p' = fold_stats (sessions p')"
    by (rule progress_session_result(2) [OF run])
next
  assume r: "snd (progress_sync fails st uid cid (Some ss) nid now) = Inr p''"
  then obtain st' where run: "progress_sync fails st uid cid (Some ss) nid now = (st', Inr p'')"
    by (cases "progress_sync fails st uid cid (Some ss) nid now") simp
  show "sessions p'' = (case find_progress (progress st) cid of
                        None \<Rightarrow> [] | Some q \<Rightarrow> sessions q) @ map (session_defaults now) ss"
    by (rule progress_sync_result(1) [OF run])
  show "overallStats p'' = fold_stats (sessions p'')"
    by (rule progress_sync_result(2) [OF run])
next
  show "overallStats (updateOverallStats p) = fold_stats (sessions p)"
    by (rule updateOverallStats_fold)
next
  assume "list_all (\<lambda>s. is_count (field s)) xs \<and>
    sum_list (map (\<lambda>s. count_of (field s)) xs) < 2 ^ 53"
  then show "js_sum (map (\<lambda>s. or0 (field s)) xs) =
        Finite (of_nat (sum_list (map (\<lambda>s. count_of (field s)) xs)))"
    using js_sum_counts [of field xs] by simp
next
  assume "js_sum (map (\<lambda>s. or0 (s_successfulAttempts s)) xs) = Finite 7 \<and>
    js_sum (map (\<lambda>s. or0 (s_totalAttempts s)) xs) = Finite 10"
  then show "successRate (fold_stats xs) = Finite 70"
    using successRate_7_of_10 [of xs] by simp
next
  assume a: "list_all (\<lambda>s. is_count (s_successfulAttempts s) \<and> is_count (s_totalAttempts s)) xs \<and>
    sum_list (map (\<lambda>s. count_of (s_successfulAttempts s)) xs) = 7 \<and>
    sum_list (map (\<lambda>s. count_of (s_totalAttempts s)) xs) = 10"
  then have c: "list_all (\<lambda>s. is_count (s_successfulAttempts s)) xs"
    "list_all (\<lambda>s. is_count (s_totalAttempts s)) xs"
    by (simp_all add: list_all_iff)
  have "js_sum (map (\<lambda>s. or0 (s_successfulAttempts s)) xs) = Finite 7"
    using js_sum_counts [OF c(1)] a by simp
  moreover have "js_sum (map (\<lambda>s. or0 (s_totalAttempts s)) xs) = Finite 10"
    using js_sum_counts [OF c(2)] a by simp
  ultimately show "successRate (fold_stats xs) = Finite 70"
    by (rule successRate_7_of_10)
next
  show "b \<noteq> 0 \<Longrightarrow> js_div (Finite a) (Finite b) = to_double (a / b)" by simp
qed (simp_all add: fold_stats_def js_sum_def)

text \<open>
  As first stated the success rate is \<open>100 * successful / total\<close>. For a session that
  reports 57 successes out of 100 attempts the stored rate is the double
  \<^verbatim>\<open>56.99999999999999\<close>, which is \<open>8022036836253695 / 2 ^ 47\<close>, where the stated formula
  gives 57. The guard of the code is \<^verbatim>\<open>totalAttempts > 0\<close>: for a session that reports
  \<open>-2\<close> attempts and one success the stored rate is 0, where the stated formula gives
  \<open>-50\<close>. And a session that carries seven successful and three failed attempt records
  but no counters gets the rate 0.
\<close>

theorem overall_stats_rounding_counterexample:
  "map_sum id overallStats (snd (progress_session no_faults store0 1 10 quiz_session 70 0)) =
     Inr \<lparr> totalSessions = Finite 1, totalPlayTime = Finite 5, totalAttempts = Finite 100,
           successRate = Finite (8022036836253695 / 140737488355328),
           averageScore = Finite 80 \<rparr> \<and>
   stated_success_rate 57 100 = 57 \<and>
   Finite (8022036836253695 / 140737488355328) \<noteq> Finite (stated_success_rate 57 100) \<and>
   map_sum id overallStats (snd (progress_session no_faults store0 1 10 refund_session 70 0)) =
     Inr \<lparr> totalSessions = Finite 1, totalPlayTime = Finite 5, totalAttempts = Finite (- 2),
           successRate = Finite 0, averageScore = Finite 40 \<rparr> \<and>
   stated_success_rate 1 (- 2) = - 50 \<and>
   count_list (map a_success (s_attempts records_session)) (Some True) = 7 \<and>
   length (s_attempts records_session) = 10 \<and>
   map_sum id overallStats (snd (progress_session no_faults store0 1 10 records_session 70 0)) =
     Inr \<lparr> totalSessions = Finite 1, totalPlayTime = Finite 5, totalAttempts = Finite 0,
           successRate = Finite 0, averageScore = Finite 0 \<rparr>"
proof -
  have run: "map_sum id overallStats (snd (progress_session no_faults store0 1 10 sd 70 0)) =
      Inr (fold_stats [session_defaults 0 sd])" for sd
    by (simp add: progress_session_def find_or_create_progress_def protect_def store0_def
        no_faults_def find_progress_def new_progress_def updateOverallStats_eq Let_def)
  have quiz: "session_defaults 0 quiz_session = quiz_session"
    by (simp add: session_defaults_def or_default_def quiz_session_def)
  have sums: "js_sum (map (\<lambda>s. or0 (s_successfulAttempts s)) [quiz_session]) = Finite 57"
    "js_sum (map (\<lambda>s. or0 (s_totalAttempts s)) [quiz_session]) = Finite 100"
    by (simp_all add: js_sum_def quiz_session_def or0_def double_simps)
  have "successRate (fold_stats [quiz_session]) =
      js_mul (js_div (Finite 57) (Finite 100)) (Finite 100)"
    by (rule successRate_of_sums [OF sums]) simp
  then have rate: "successRate (fold_stats [quiz_session]) =
      Finite (8022036836253695 / 140737488355328)"
    by (simp only: rate_57_of_100)
  have rest: "totalSessions (fold_stats [quiz_session]) = Finite 1"
    "totalPlayTime (fold_stats [quiz_session]) = Finite 5"
    "totalAttempts (fold_stats [quiz_session]) = Finite 100"
    "averageScore (fold_stats [quiz_session]) = Finite 80"
    by (simp_all add: fold_stats_def js_sum_def quiz_session_def or0_def double_simps)
  have 1: "fold_stats [quiz_session] =
      \<lparr> totalSessions = Finite 1, totalPlayTime = Finite 5, totalAttempts = Finite 100,
        successRate = Finite (8022036836253695 / 140737488355328),
        averageScore = Finite 80 \<rparr>"
    by (rule overall_stats.equality) (simp_all add: rate rest)
  have 2: "fold_stats [session_defaults 0 refund_session] =
      \<lparr> totalSessions = Finite 1, totalPlayTime = Finite 5, totalAttempts = Finite (- 2),
        successRate = Finite 0, averageScore = Finite 40 \<rparr>"
    by (simp add: fold_stats_def js_sum_def session_defaults_def or_default_def
        refund_session_def or0_def double_simps)
  have 3: "fold_stats [session_defaults 0 records_session] =
      \<lparr> totalSessions = Finite 1, totalPlayTime = Finite 5, totalAttempts = Finite 0,
        successRate = Finite 0, averageScore = Finite 0 \<rparr>"
    by (simp add: fold_stats_def js_sum_def session_defaults_def or_default_def
        records_session_def or0_def double_simps)
  have 4: "count_list (map a_success (s_attempts records_session)) (Some True) = 7"
    "length (s_attempts records_session) = 10"
    by (simp_all add: records_session_def attempt_on_def numeral_eq_Suc)
  have 5: "stated_success_rate 57 100 = 57" "stated_success_rate 1 (- 2) = - 50"
    by (simp_all add: stated_success_rate_def)
  have 6: "Finite (8022036836253695 / 140737488355328) \<noteq> Finite (stated_success_rate 57 100)"
    by (simp add: 5)
  show ?thesis
    unfolding run quiz 1 2 3 by (intro conjI refl 4 5 6)
qed

text \<open>
  Two sessions that report 3 of 4 and 4 of 6 successful attempts, synced in one batch,
  and the first of them sent alone.
\<close>

theorem overall_stats_after_append_witness:
  "list_all (\<lambda>s. is_count (s_successfulAttempts s) \<and> is_count (s_totalAttempts s))
      [two_attempts_session\<lparr> s_totalAttempts := Some (Finite 4),
                              s_successfulAttempts := Some (Finite 3) \<rparr>,
       two_attempts_session\<lparr> s_totalAttempts := Some (Finite 6),
                              s_successfulAttempts := Some (Finite 4) \<rparr>] \<and>
   sum_list (map (\<lambda>s. count_of (s_successfulAttempts s))
      [two_attempts_session\<lparr> s_totalAttempts := Some (Finite 4),
                              s_successfulAttempts := Some (Finite 3) \<rparr>,
       two_attempts_session\<lparr> s_totalAttempts := Some (Finite 6),
                              s_successfulAttempts := Some (Finite 4) \<rparr>]) = 7 \<and>
   sum_list (map (\<lambda>s. count_of (s_totalAttempts s))
      [two_attempts_session\<lparr> s_totalAttempts := Some (Finite 4),
                              s_successfulAttempts := Some (Finite 3) \<rparr>,
       two_attempts_session\<lparr> s_totalAttempts := Some (Finite 6),
                              s_successfulAttempts := Some (Finite 4) \<rparr>]) = 10 \<and>
   snd (progress_sync no_faults store0 1 10
      (Some [two_attempts_session\<lparr> s_totalAttempts := Some (Finite 4),
                                    s_successfulAttempts := Some (Finite 3) \<rparr>,
             two_attempts_session\<lparr> s_totalAttempts := Some (Finite 6),
                                    s_successfulAttempts := Some (Finite 4) \<rparr>])
      70 0) =
     Inr \<lparr> p_id = 70, p_child = 10,
           sessions =
             [two_attempts_session\<lparr> s_totalAttempts := Some (Finite 4),
                                     s_successfulAttempts := Some (Finite 3) \<rparr>,
              two_attempts_session\<lparr> s_totalAttempts := Some (Finite 6),
                                     s_successfulAttempts := Some (Finite 4) \<rparr>],
           overallStats = \<lparr> totalSessions = Finite 2, totalPlayTime = Finite 20,
                            totalAttempts = Finite 10, successRate = Finite 70,
                            averageScore = Finite 60 \<rparr>,
           lastSyncDate = 0 \<rparr> \<and>
   snd (progress_session no_faults store0 1 10
      (two_attempts_session\<lparr> s_totalAttempts := Some (Finite 4),
                              s_successfulAttempts := Some (Finite 3) \<rparr>) 70 0) =
     Inr \<lparr> p_id = 70, p_child = 10,
           sessions =
             [two_attempts_session\<lparr> s_totalAttempts := Some (Finite 4),
                                     s_successfulAttempts := Some (Finite 3) \<rparr>],
           overallStats = \<lparr> totalSessions = Finite 1, totalPlayTime = Finite 10,
                            totalAttempts = Finite 4, successRate = Finite 75,
                            averageScore = Finite 60 \<rparr>,
           lastSyncDate = 0 \<rparr> \<and>
   js_div (Finite 3) (Finite 4) = Finite (3 / 4)"
proof -
  let ?a = "two_attempts_session\<lparr> s_totalAttempts := Some (Finite 4),
                                   s_successfulAttempts := Some (Finite 3) \<rparr>"
  let ?b = "two_attempts_session\<lparr> s_totalAttempts := Some (Finite 6),
                                   s_successfulAttempts := Some (Finite 4) \<rparr>"
  let ?xs = "[?a, ?b]"
  note t = overall_stats_after_append [where xs = ?xs and st = store0 and fails = no_faults
      and uid = 1 and cid = 10 and nid = 70 and now = 0 and ss = ?xs and sd = ?a]
  have c: "list_all (\<lambda>s. is_count (s_successfulAttempts s) \<and> is_count (s_totalAttempts s)) ?xs"
    by (simp add: is_count_def count_of_def or0_def two_attempts_session_def)
  have s: "sum_list (map (\<lambda>s. count_of (s_successfulAttempts s)) ?xs) = 7"
    by (simp add: count_of_def two_attempts_session_def)
  have n: "sum_list (map (\<lambda>s. count_of (s_totalAttempts s)) ?xs) = 10"
    by (simp add: count_of_def two_attempts_session_def)
  have rate: "successRate (fold_stats ?xs) = Finite 70"
    using t c s n by blast
  have "list_all (\<lambda>s. is_count (s_totalAttempts s)) ?xs"
    using c by simp
  then have "js_sum (map (\<lambda>s. or0 (s_totalAttempts s)) ?xs) = Finite 10"
    using t [where field = s_totalAttempts] n by simp
  then have attempts: "totalAttempts (fold_stats ?xs) = Finite 10"
    using t by simp
  have rest: "totalSessions (fold_stats ?xs) = Finite 2"
    "totalPlayTime (fold_stats ?xs) = Finite 20"
    "averageScore (fold_stats ?xs) = Finite 60"
    by (simp_all add: fold_stats_def js_sum_def two_attempts_session_def or0_def double_simps)
  have stats: "fold_stats ?xs =
      \<lparr> totalSessions = Finite 2, totalPlayTime = Finite 20, totalAttempts = Finite 10,
        successRate = Finite 70, averageScore = Finite 60 \<rparr>"
    by (rule overall_stats.equality) (simp_all add: rate attempts rest)
  have d: "map (session_defaults 0) ?xs = ?xs" "session_defaults 0 ?a = ?a"
    by (simp_all add: session_defaults_def attempt_defaults_def or_default_def
        two_attempts_session_def)
  have sync: "snd (progress_sync no_faults store0 1 10 (Some ?xs) 70 0) =
      Inr \<lparr> p_id = 70, p_child = 10, sessions = map (session_defaults 0) ?xs,
            overallStats = fold_stats (map (session_defaults 0) ?xs), lastSyncDate = 0 \<rparr>"
    by (simp add: progress_sync_def find_or_create_progress_def protect_def store0_def
        no_faults_def find_progress_def new_progress_def updateOverallStats_eq Let_def
        save_progress_def find_child_def demo_defs del: list.map)
  have one: "snd (progress_session no_faults store0 1 10 ?a 70 0) =
      Inr \<lparr> p_id = 70, p_child = 10, sessions = [session_defaults 0 ?a],
            overallStats = fold_stats [session_defaults 0 ?a], lastSyncDate = 0 \<rparr>"
    by (simp add: progress_session_def find_or_create_progress_def protect_def store0_def
        no_faults_def find_progress_def new_progress_def updateOverallStats_eq Let_def
        save_progress_def)
  have three_quarters: "to_double (3 / 4) = Finite (3 / 4)"
    using to_double_positive [of "- 1" "3 / 4" 6755399441055744] by (simp add: pow2_def)
  have quotient: "js_div (Finite 3) (Finite 4) = Finite (3 / 4)"
    using t [where a = 3 and b = 4] three_quarters by simp
  have stats1: "fold_stats [?a] =
      \<lparr> totalSessions = Finite 1, totalPlayTime = Finite 10, totalAttempts = Finite 4,
        successRate = Finite 75, averageScore = Finite 60 \<rparr>"
    by (simp add: fold_stats_def js_sum_def two_attempts_session_def or0_def double_simps
        three_quarters)
  from c s n sync one quotient show ?thesis
    unfolding d stats stats1 by (intro conjI)
qed

section \<open>The append routes refuse nobody\<close>

text \<open>
  Claim C10. For an authenticated caller, whatever their role and whatever the
  \<^verbatim>\<open>childId\<close> (no child is looked up before the write), \<^verbatim>\<open>POST /api/progress/session\<close>
  and \<^verbatim>\<open>POST /api/progress/sync\<close> (with its \<^verbatim>\<open>sessions\<close> array) never answer 404 or
  403; when they fail, the answer is the 500 of a rejected database call (find, create
  or save); and when those calls succeed the route succeeds, a progress document for the
  \<^verbatim>\<open>childId\<close> is in the store afterwards (created if there was none), holding the
  former sessions followed by the supplied one(s), as the session schema stores them,
  with the statistics recomputed.
\<close>

theorem progress_append_never_refuses:
  assumes auth: "users st uid = Some me"
  shows
   "(\<forall>m. snd (progress_session fails st uid cid sd nid now) \<noteq> Inl (Failure 404 m)) \<and>
    (\<forall>m. snd (progress_session fails st uid cid sd nid now) \<noteq> Inl (Failure 403 m)) \<and>
    (\<forall>m. snd (progress_sync fails st uid cid (Some ss) nid now) \<noteq> Inl (Failure 404 m)) \<and>
    (\<forall>m. snd (progress_sync fails st uid cid (Some ss) nid now) \<noteq> Inl (Failure 403 m)) \<and>
    (\<forall>e. snd (progress_session fails st uid cid sd nid now) = Inl e \<or>
          snd (progress_sync fails st uid cid (Some ss) nid now) = Inl e \<longrightarrow>
       e = Failure 500 Error_message \<and>
       (fails Find_progress \<or> fails Create_progress \<or> fails Save_progress)) \<and>
    (\<not> fails Find_progress \<and> \<not> fails Create_progress \<and> \<not> fails Save_progress \<longrightarrow>
       (\<exists>st' p'. progress_session fails st uid cid sd nid now = (st', Inr p') \<and>
          p_child p' = cid \<and>
          find_progress (progress st') cid = Some p' \<and>
          sessions p' = (case find_progress (progress st) cid of
                           None \<Rightarrow> [] | Some q \<Rightarrow> sessions q) @ [session_defaults now sd] \<and>
          overallStats p' = fold_stats (sessions p')) \<and>
       (\<exists>st' p'. progress_sync fails st uid cid (Some ss) nid now = (st', Inr p') \<and>
          p_child p' = cid \<and>
          find_progress (progress st') cid = Some p' \<and>
          sessions p' = (case find_progress (progress st) cid of
                           None \<Rightarrow> [] | Some q \<Rightarrow> sessions q) @
                             map (session_defaults now) ss \<and>
          overallStats p' = fold_stats (sessions p')))"
proof -
  have fail: "e = Failure 500 Error_message \<and>
       (fails Find_progress \<or> fails Create_progress \<or> fails Save_progress)"
    if "snd (progress_session fails st uid cid sd nid now) = Inl e \<or>
        snd (progress_sync fails st uid cid (Some ss) nid now) = Inl e" for e
    using that progress_session_failure [OF auth] progress_sync_failure [OF auth] by blast
  have a: "snd (progress_session fails st uid cid sd nid now) \<noteq> Inl (Failure c m)"
    if "c \<noteq> 500" for c m
    using fail [of "Failure c m"] that by auto
  have b: "snd (progress_sync fails st uid cid (Some ss) nid now) \<noteq> Inl (Failure c m)"
    if "c \<noteq> 500" for c m
    using fail [of "Failure c m"] that by auto
  have ok: "(\<exists>st' p'. progress_session fails st uid cid sd nid now = (st', Inr p') \<and>
          p_child p' = cid \<and>
          find_progress (progress st') cid = Some p' \<and>
          sessions p' = (case find_progress (progress st) cid of
                           None \<Rightarrow> [] | Some q \<Rightarrow> sessions q) @ [session_defaults now sd] \<and>
          overallStats p' = fold_stats (sessions p')) \<and>
       (\<exists>st' p'. progress_sync fails st uid cid (Some ss) nid now = (st', Inr p') \<and>
          p_child p' = cid \<and>
          find_progress (progress st') cid = Some p' \<and>
          sessions p' = (case find_progress (progress st) cid of
                           None \<Rightarrow> [] | Some q \<Rightarrow> sessions q) @
                             map (session_defaults now) ss \<and>
          overallStats p' = fold_stats (sessions p'))"
    if nf: "\<not> fails Find_progress \<and> \<not> fails Create_progress \<and> \<not> fails Save_progress"
  proof
    from nf progress_session_success [OF auth, of fails cid sd nid now]
    obtain st' p' where run: "progress_session fails st uid cid sd nid now = (st', Inr p')"
      by blast
    show "\<exists>st' p'. progress_session fails st uid cid sd nid now = (st', Inr p') \<and>
          p_child p' = cid \<and>
          find_progress (progress st') cid = Some p' \<and>
          sessions p' = (case find_progress (progress st) cid of
                           None \<Rightarrow> [] | Some q \<Rightarrow> sessions q) @ [session_defaults now sd] \<and>
          overallStats p' = fold_stats (sessions p')"
      using run progress_session_result [OF run] by blast
  next
    from nf progress_sync_success [OF auth, of fails cid ss nid now]
    obtain st' p' where run: "progress_sync fails st uid cid (Some ss) nid now = (st', Inr p')"
      by blast
    show "\<exists>st' p'. progress_sync fails st uid cid (Some ss) nid now = (st', Inr p') \<and>
          p_child p' = cid \<and>
          find_progress (progress st') cid = Some p' \<and>
          sessions p' = (case find_progress (progress st) cid of
                           None \<Rightarrow> [] | Some q \<Rightarrow> sessions q) @
                             map (session_defaults now) ss \<and>
          overallStats p' = fold_stats (sessions p')"
      using run progress_sync_result [OF run] by blast
  qed
  show ?thesis
    using a [of 404] a [of 403] b [of 404] b [of 403] fail ok
    by (intro conjI allI impI) simp_all
qed

text \<open>
  Specialist 2 appends for the identifier 999, which names no child and has no progress
  document.
\<close>

theorem progress_append_never_refuses_witness:
  "users store0 2 = Some demo_specialist \<and>
   find_child (children store0) 999 = None \<and>
   find_progress (progress store0) 999 = None \<and>
   (\<exists>st' p'. progress_session no_faults store0 2 999 two_attempts_session 70 0 = (st', Inr p') \<and>
      p_child p' = 999 \<and>
      find_progress (progress st') 999 = Some p' \<and>
      sessions p' = [two_attempts_session]) \<and>
   (\<exists>st' p'. progress_sync no_faults store0 2 999 (Some [two_attempts_session]) 70 0
        = (st', Inr p') \<and>
      p_child p' = 999 \<and>
      find_progress (progress st') 999 = Some p' \<and>
      sessions p' = [two_attempts_session])"
proof -
  have 1: "users store0 2 = Some demo_specialist" by (simp add: store0_def)
  have 2: "find_child (children store0) 999 = None"
    by (simp add: store0_def find_child_def demo_defs)
  have 3: "find_progress (progress store0) 999 = None"
    by (simp add: store0_def find_progress_def)
  have nf: "\<not> no_faults Find_progress \<and> \<not> no_faults Create_progress \<and>
            \<not> no_faults Save_progress"
    by (simp add: no_faults_def)
  note t = progress_append_never_refuses [OF 1, where fails = no_faults and cid = 999
      and sd = two_attempts_session and ss = "[two_attempts_session]" and nid = 70 and now = 0]
  have d: "session_defaults 0 two_attempts_session = two_attempts_session"
    by (simp add: session_defaults_def attempt_defaults_def or_default_def
        two_attempts_session_def)
  have a: "\<exists>st' p'. progress_session no_faults store0 2 999 two_attempts_session 70 0
         = (st', Inr p') \<and>
      p_child p' = 999 \<and>
      find_progress (progress st') 999 = Some p' \<and>
      sessions p' = [two_attempts_session]"
    using t nf by (simp add: 3 d) blast
  have b: "\<exists>st' p'. progress_sync no_faults store0 2 999 (Some [two_attempts_session]) 70 0
        = (st', Inr p') \<and>
      p_child p' = 999 \<and>
      find_progress (progress st') 999 = Some p' \<and>
      sessions p' = [two_attempts_session]"
    using t nf by (simp add: 3 d) blast
  from 1 2 3 a b show ?thesis by (intro conjI)
qed

section \<open>The limit of the attempts route\<close>

lemmas limit_defs = attempts_limit_def parseInt10_def units_def is_whitespace_def
  is_digit_def digits_value_def to_number_def Let_def

lemma attempts_limit_range: "1 \<le> attempts_limit q \<and> attempts_limit q \<le> 200"
  by (cases "parseInt10 q") (auto simp: attempts_limit_def min_def max_def)

lemma progress_attempts_length:
  "progress_attempts st uid cid q = Inr xs \<Longrightarrow> length xs \<le> attempts_limit q"
  by (auto simp: progress_attempts_def Let_def split: sum.splits option.splits if_splits)

lemma parseInt10_NaN_iff: "parseInt10 q = NaN \<longleftrightarrow> \<not> begins_with_integer q"
proof (cases q)
  case None
  then show ?thesis by (simp add: parseInt10_def begins_with_integer_def)
next
  case (Some s)
  define t where "t = dropWhile is_whitespace s"
  define body where "body = (if t \<noteq> [] \<and> (hd t = 45 \<or> hd t = 43) then tl t else t)"
  have n: "to_number negative v \<noteq> NaN" for negative v
    by (simp add: to_number_def)
  have "takeWhile is_digit body = [] \<longleftrightarrow> \<not> (body \<noteq> [] \<and> is_digit (hd body))"
    by (cases body) simp_all
  then show ?thesis
    using n unfolding Some parseInt10_def begins_with_integer_def Let_def option.case
      t_def [symmetric] body_def [symmetric]
    by simp
qed

text \<open>A run of \<open>n\<close> digits \<^verbatim>\<open>9\<close> denotes \<open>10 ^ n - 1\<close>.\<close>

lemma digits_value_nines: "digits_value (replicate n 57) = 10 ^ n - 1"
proof -
  have "foldl (\<lambda>acc d. 10 * acc + (int d - 48)) a (replicate n 57) = (a + 1) * 10 ^ n - 1"
    for a
    by (induction n arbitrary: a) (simp_all add: algebra_simps)
  from this [of 0] show ?thesis by (simp add: digits_value_def)
qed

text \<open>
  Leading white space is skipped, one sign is read, then the digits; what follows them
  is not read.
\<close>

lemma parseInt10_reads:
  assumes "list_all is_whitespace ws" "sg = [] \<or> sg = [45] \<or> sg = [43]"
    and "ds \<noteq> []" "list_all is_digit ds" "rest = [] \<or> \<not> is_digit (hd rest)"
  shows "parseInt10 (Some (ws @ sg @ ds @ rest)) = to_number (sg = [45]) (digits_value ds)"
proof -
  from assms(3,4) have h: "is_digit (hd ds)" by (cases ds) simp_all
  then have w: "\<not> is_whitespace (hd ds)" and s: "hd ds \<noteq> 45" "hd ds \<noteq> 43"
    by (auto simp: is_digit_def is_whitespace_def)
  have nw: "\<not> is_whitespace 45" "\<not> is_whitespace 43"
    by (simp_all add: is_whitespace_def)
  have "dropWhile is_whitespace (ws @ sg @ ds @ rest) = dropWhile is_whitespace (sg @ ds @ rest)"
    using assms(1) by (simp add: dropWhile_append2 list_all_iff)
  also have "\<dots> = sg @ ds @ rest"
    using assms(2,3) w nw by (cases ds) auto
  finally have t: "dropWhile is_whitespace (ws @ sg @ ds @ rest) = sg @ ds @ rest" .
  have "takeWhile is_digit rest = []"
    using assms(5) by (cases rest) simp_all
  then have d: "takeWhile is_digit (ds @ rest) = ds"
    using assms(4) by (simp add: takeWhile_append2 list_all_iff)
  from assms(2) show ?thesis
  proof (elim disjE)
    assume "sg = []"
    with t d assms(3) s show ?thesis
      by (simp add: parseInt10_def Let_def)
  next
    assume "sg = [45]"
    with t d assms(3) show ?thesis
      by (simp add: parseInt10_def Let_def)
  next
    assume "sg = [43]"
    with t d assms(3) show ?thesis
      by (simp add: parseInt10_def Let_def)
  qed
qed

lemma parseInt10_digits:
  assumes "ds \<noteq> []" "list_all is_digit ds" "rest = [] \<or> \<not> is_digit (hd rest)"
  shows "parseInt10 (Some (ds @ rest)) = to_number False (digits_value ds)"
  using parseInt10_reads [of "[]" "[]" ds rest] assms by simp

text \<open>
  Claim C8, as amended. The limit of \<^verbatim>\<open>GET /api/progress/attempts/:childId\<close> is always
  between 1 and 200, and a successful answer holds at most that many attempts. The
  limit is read with \<^verbatim>\<open>parseInt(limit, 10)\<close>: after leading white space and one optional
  sign the longest run of decimal digits is read, and what follows it is ignored. The
  reading is \<^verbatim>\<open>NaN\<close> exactly when \<^verbatim>\<open>limit\<close> is absent or does not begin with an integer
  in this sense, and then the limit is the default 50, as for \<^verbatim>\<open>limit=abc\<close>. A finite
  integer \<open>n\<close> is clamped to \<open>min (max n 1) 200\<close>, so \<^verbatim>\<open>limit=500\<close> and \<^verbatim>\<open>limit=500abc\<close>
  give 200, and \<^verbatim>\<open>limit=0\<close> and \<^verbatim>\<open>limit=-5\<close> give 1. An integer too large for a finite
  double reads as an infinity, and the limit is 50.
\<close>

theorem attempts_limit_clamped:
  "1 \<le> attempts_limit q \<and> attempts_limit q \<le> 200 \<and>
   (parseInt10 q = NaN \<longleftrightarrow> \<not> begins_with_integer q) \<and>
   (\<not> begins_with_integer q \<longrightarrow> attempts_limit q = 50) \<and>
   (parseInt10 q = NaN \<longrightarrow> attempts_limit q = 50) \<and>
   (\<forall>n. parseInt10 q = Num n \<longrightarrow> attempts_limit q = nat (min (max n 1) 200)) \<and>
   (parseInt10 q = Infinity \<or> parseInt10 q = Minus_infinity \<longrightarrow> attempts_limit q = 50) \<and>
   (list_all is_whitespace ws \<and> (sg = [] \<or> sg = [45] \<or> sg = [43]) \<and>
    ds \<noteq> [] \<and> list_all is_digit ds \<and> (rest = [] \<or> \<not> is_digit (hd rest)) \<longrightarrow>
      parseInt10 (Some (ws @ sg @ ds @ rest)) = to_number (sg = [45]) (digits_value ds) \<and>
      attempts_limit (Some (ds @ rest)) = attempts_limit (Some ds)) \<and>
   (k < 2 ^ 1024 - 2 ^ 970 \<longrightarrow> to_number negative k = Num (if negative then - k else k)) \<and>
   (2 ^ 1024 - 2 ^ 970 \<le> k \<longrightarrow>
      to_number negative k = (if negative then Minus_infinity else Infinity)) \<and>
   attempts_limit None = 50 \<and>
   attempts_limit (Some (units ''abc'')) = 50 \<and>
   attempts_limit (Some (units ''500'')) = 200 \<and>
   attempts_limit (Some (units ''500abc'')) = 200 \<and>
   attempts_limit (Some (units ''0'')) = 1 \<and>
   attempts_limit (Some (units ''-5'')) = 1 \<and>
   (\<forall>xs. progress_attempts st uid cid q = Inr xs \<longrightarrow> length xs \<le> attempts_limit q)"
proof (intro conjI allI impI)
  show "1 \<le> attempts_limit q" "attempts_limit q \<le> 200"
    using attempts_limit_range [of q] by simp_all
  show "parseInt10 q = NaN \<longleftrightarrow> \<not> begins_with_integer q" by (rule parseInt10_NaN_iff)
  show "attempts_limit None = 50" by (simp add: attempts_limit_def parseInt10_def)
  show "attempts_limit (Some (units ''abc'')) = 50" by (simp add: limit_defs)
  show "attempts_limit (Some (units ''500'')) = 200" by (simp add: limit_defs)
  show "attempts_limit (Some (units ''500abc'')) = 200" by (simp add: limit_defs)
  show "attempts_limit (Some (units ''0'')) = 1" by (simp add: limit_defs)
  show "attempts_limit (Some (units ''-5'')) = 1" by (simp add: limit_defs)
next
  assume "\<not> begins_with_integer q"
  then have "parseInt10 q = NaN" by (simp add: parseInt10_NaN_iff)
  then show "attempts_limit q = 50" by (simp add: attempts_limit_def)
next
  assume "parseInt10 q = NaN"
  then show "attempts_limit q = 50" by (simp add: attempts_limit_def)
next
  fix n assume "parseInt10 q = Num n"
  then show "attempts_limit q = nat (min (max n 1) 200)" by (simp add: attempts_limit_def)
next
  assume "parseInt10 q = Infinity \<or> parseInt10 q = Minus_infinity"
  then show "attempts_limit q = 50" by (auto simp: attempts_limit_def)
next
  assume a: "list_all is_whitespace ws \<and> (sg = [] \<or> sg = [45] \<or> sg = [43]) \<and>
    ds \<noteq> [] \<and> list_all is_digit ds \<and> (rest = [] \<or> \<not> is_digit (hd rest))"
  then show "parseInt10 (Some (ws @ sg @ ds @ rest)) = to_number (sg = [45]) (digits_value ds)"
    by (intro parseInt10_reads) simp_all
  from a have "parseInt10 (Some (ds @ rest)) = to_number False (digits_value ds)"
    by (intro parseInt10_digits) simp_all
  moreover from a have "parseInt10 (Some (ds @ [])) = to_number False (digits_value ds)"
    by (intro parseInt10_digits) simp_all
  ultimately show "attempts_limit (Some (ds @ rest)) = attempts_limit (Some ds)"
    by (simp add: attempts_limit_def)
next
  assume "k < 2 ^ 1024 - 2 ^ 970"
  then show "to_number negative k = Num (if negative then - k else k)"
    by (simp add: to_number_def)
next
  assume "2 ^ 1024 - 2 ^ 970 \<le> k"
  then show "to_number negative k = (if negative then Minus_infinity else Infinity)"
    by (simp add: to_number_def)
next
  fix xs assume "progress_attempts st uid cid q = Inr xs"
  then show "length xs \<le> attempts_limit q" by (rule progress_attempts_length)
qed

text \<open>
  As first stated, \<^verbatim>\<open>limit=0\<close> falls back to the default 50. With two attempts stored,
  \<^verbatim>\<open>limit=0\<close> answers one attempt, where \<^verbatim>\<open>limit=abc\<close> or an absent limit answers both.
\<close>

lemmas attempts_defs = progress_attempts_def protect_def store7_def demo_defs find_child_def
  find_progress_def updateOverallStats_eq new_progress_def two_attempts_session_def
  flatten_attempts_def view_attempt_def or_string_def time_of_def Let_def

theorem attempts_limit_zero_counterexample:
  "attempts_limit (Some (units ''0'')) = 1 \<and>
   map_sum id length (progress_attempts store7 1 10 (Some (units ''0''))) = Inr 1 \<and>
   map_sum id length (progress_attempts store7 1 10 (Some (units ''abc''))) = Inr 2 \<and>
   map_sum id length (progress_attempts store7 1 10 None) = Inr 2"
proof -
  have l0: "attempts_limit (Some (units ''0'')) = 1" by (simp add: limit_defs)
  have l1: "attempts_limit (Some (units ''abc'')) = 50" by (simp add: limit_defs)
  have l2: "attempts_limit None = 50" by (simp add: attempts_limit_def parseInt10_def)
  show ?thesis
    by (simp add: l0) (simp add: attempts_defs l0 l1 l2)
qed

text \<open>
  \<^verbatim>\<open>limit=12 apples\<close> reads as 12 and \<^verbatim>\<open>limit=abc\<close> as \<^verbatim>\<open>NaN\<close>; the digits \<^verbatim>\<open>500\<close>
  followed by \<^verbatim>\<open>abc\<close>, alone and after a space and a minus sign; four hundred digits
  \<^verbatim>\<open>9\<close>, which read as an infinity; and \<^verbatim>\<open>limit=0\<close> and \<^verbatim>\<open>limit=500\<close> on the stored
  attempts, newest first.
\<close>

theorem attempts_limit_clamped_witness:
  "parseInt10 (Some (units ''12 apples'')) = Num 12 \<and>
   attempts_limit (Some (units ''12 apples'')) = 12 \<and>
   \<not> begins_with_integer (Some (units ''abc'')) \<and>
   parseInt10 (Some (units ''abc'')) = NaN \<and>
   attempts_limit (Some (units ''abc'')) = 50 \<and>
   units ''500'' \<noteq> [] \<and> list_all is_digit (units ''500'') \<and>
   \<not> is_digit (hd (units ''abc'')) \<and>
   parseInt10 (Some (units ''500'' @ units ''abc'')) = Num 500 \<and>
   attempts_limit (Some (units ''500'' @ units ''abc'')) = 200 \<and>
   list_all is_whitespace (units '' '') \<and>
   parseInt10 (Some (units '' '' @ units ''-'' @ units ''500'' @ units ''abc'')) = Num (- 500) \<and>
   attempts_limit (Some (units '' -500abc'')) = 1 \<and>
   parseInt10 (Some (replicate 400 57)) = Infinity \<and>
   attempts_limit (Some (replicate 400 57)) = 50 \<and>
   map_sum id (map v_timestamp) (progress_attempts store7 1 10 (Some (units ''0'')))
     = Inr [Some 200] \<and>
   map_sum id (map v_timestamp) (progress_attempts store7 1 10 (Some (units ''500'')))
     = Inr [Some 200, Some 100] \<and>
   length [Some (200::int)] \<le> attempts_limit (Some (units ''0''))"
proof -
  note t = attempts_limit_clamped
  have p: "parseInt10 (Some (units ''12 apples'')) = Num 12" by (simp add: limit_defs)
  have a: "attempts_limit (Some (units ''12 apples'')) = 12"
    using t [of "Some (units ''12 apples'')"] p by simp
  have b: "\<not> begins_with_integer (Some (units ''abc''))"
    by (simp add: begins_with_integer_def units_def is_whitespace_def is_digit_def)
  have n: "parseInt10 (Some (units ''abc'')) = NaN"
    using t [of "Some (units ''abc'')"] b by simp
  have n50: "attempts_limit (Some (units ''abc'')) = 50"
    using t [of "Some (units ''abc'')"] b by blast
  have d: "units ''500'' \<noteq> []" "list_all is_digit (units ''500'')"
    "\<not> is_digit (hd (units ''abc''))"
    by (simp_all add: units_def is_digit_def)
  have v: "to_number False (digits_value (units ''500'')) = Num 500"
    by (simp add: units_def digits_value_def to_number_def)
  have l5: "attempts_limit (Some (units ''500'')) = 200" by (simp add: limit_defs)
  have tail: "parseInt10 (Some (units ''500'' @ units ''abc'')) = Num 500"
    "attempts_limit (Some (units ''500'' @ units ''abc'')) = 200"
    using t [where ws = "[]" and sg = "[]" and ds = "units ''500''" and rest = "units ''abc''"]
      d v l5 by simp_all
  have sp: "list_all is_whitespace (units '' '')"
    by (simp add: units_def is_whitespace_def)
  have vm: "to_number True (digits_value (units ''500'')) = Num (- 500)"
    using t [where k = 500 and negative = True]
    by (simp add: units_def digits_value_def)
  have minus: "parseInt10 (Some (units '' '' @ units ''-'' @ units ''500'' @ units ''abc''))
      = Num (- 500)"
    using t [where ws = "units '' ''" and sg = "units ''-''" and ds = "units ''500''"
        and rest = "units ''abc''"] d sp vm
    by (simp add: units_def)
  have m1: "attempts_limit (Some (units '' -500abc'')) = 1"
    using t [of "Some (units '' -500abc'')"] minus by (simp add: units_def)
  have "parseInt10 (Some (replicate 400 57 @ [])) =
      to_number False (digits_value (replicate 400 57))"
    by (rule parseInt10_digits) (simp_all add: list_all_iff is_digit_def)
  then have inf: "parseInt10 (Some (replicate 400 57)) = Infinity"
    by (simp add: digits_value_nines to_number_def)
  have i50: "attempts_limit (Some (replicate 400 57)) = 50"
    using t [of "Some (replicate 400 57)"] inf by blast
  have l0: "attempts_limit (Some (units ''0'')) = 1" by (simp add: limit_defs)
  have r0: "progress_attempts store7 1 10 (Some (units ''0'')) =
      Inr [\<lparr> v_sessionDate = Some 50, v_timestamp = Some 200, v_target = ''b'',
              v_letter = Some ''b'', v_word = None, v_vowel = None, v_success = False,
              v_score = Some (Finite 40) \<rparr>]"
    by (simp add: attempts_defs l0)
  have r5: "map_sum id (map v_timestamp) (progress_attempts store7 1 10 (Some (units ''500'')))
     = Inr [Some 200, Some 100]"
    by (simp add: attempts_defs l5)
  have len: "length [Some (200::int)] \<le> attempts_limit (Some (units ''0''))"
    using t [where q = "Some (units ''0'')" and st = store7 and uid = 1 and cid = 10] r0
    by simp
  from p a b n n50 d tail sp minus m1 inf i50 r0 r5 len show ?thesis by simp
qed

section \<open>What the generic delete routes and the validating add routes do\<close>

text \<open>
  \<^verbatim>\<open>DELETE /api/words/:id\<close> and \<^verbatim>\<open>DELETE /api/content/delete/:contentId\<close> answer 404
  when no content document holds the identifier and otherwise remove the item, for any
  authenticated caller: neither looks at the caller or at the child. The specialist
  route answers 403 when the owning child does not exist or is assigned to somebody
  else.
\<close>

lemma delete_item_gone:
  "\<not> list_ex (\<lambda>i. i_id i = c) (contentWords (delete_item c d)) \<and>
   \<not> list_ex (\<lambda>i. i_id i = c) (contentLetters (delete_item c d))"
  by (simp add: delete_item_def list_ex_iff)

theorem generic_delete_asks_no_owner:
  assumes "users st uid = Some me"
  shows "(find (has_item c) (exercises st) = None \<longrightarrow>
            content_delete st uid c = (st, Inl (Failure 404 Content_not_found)) \<and>
            words_delete st uid c = (st, Inl (Failure 404 Word_not_found))) \<and>
         (\<forall>doc. find (has_item c) (exercises st) = Some doc \<longrightarrow>
            content_delete st uid c =
              (st\<lparr> exercises := save_exercise (delete_item c doc) (exercises st) \<rparr>, Inr ()) \<and>
            words_delete st uid c =
              (st\<lparr> exercises := save_exercise (delete_item c doc) (exercises st) \<rparr>,
               Inr (e_child doc)) \<and>
            \<not> list_ex (\<lambda>i. i_id i = c) (contentWords (delete_item c doc)) \<and>
            \<not> list_ex (\<lambda>i. i_id i = c) (contentLetters (delete_item c doc)) \<and>
            (find_child (children st) (e_child doc) = None \<longrightarrow>
               specialist_content_delete st uid c =
                 (st, Inl (Failure 403 Not_authorized_to_delete_content))) \<and>
            (\<forall>ch s. find_child (children st) (e_child doc) = Some ch \<and>
                    assignedSpecialist ch = Some s \<and> s \<noteq> uid \<longrightarrow>
               specialist_content_delete st uid c =
                 (st, Inl (Failure 403 Not_authorized_to_delete_content))))"
  using protect_ok [OF assms] delete_item_gone [of c]
  by (auto simp: content_delete_def words_delete_def specialist_content_delete_def)

theorem generic_delete_asks_no_owner_witness:
  "users store6 1 = Some demo_parent \<and>
   find (has_item 500) (exercises store6) = Some apple_doc \<and>
   content_delete store6 1 500 =
     (store6\<lparr> exercises := [apple_doc\<lparr> contentWords := [] \<rparr>] \<rparr>, Inr ()) \<and>
   words_delete store6 1 500 =
     (store6\<lparr> exercises := [apple_doc\<lparr> contentWords := [] \<rparr>] \<rparr>, Inr 10)"
proof -
  have 1: "users store6 1 = Some demo_parent" by (simp add: store6_def)
  have 2: "find (has_item 500) (exercises store6) = Some apple_doc"
    by (simp add: store6_def apple_defs has_item_def)
  have 3: "save_exercise (delete_item 500 apple_doc) (exercises store6) =
             [apple_doc\<lparr> contentWords := [] \<rparr>]"
    by (simp add: store6_def apple_defs save_exercise_def delete_item_def)
  have 4: "e_child apple_doc = 10" by (simp add: apple_defs)
  from generic_delete_asks_no_owner [OF 1, of 500] 2
  have "content_delete store6 1 500 =
              (store6\<lparr> exercises := save_exercise (delete_item 500 apple_doc) (exercises store6) \<rparr>, Inr ())"
    "words_delete store6 1 500 =
              (store6\<lparr> exercises := save_exercise (delete_item 500 apple_doc) (exercises store6) \<rparr>,
               Inr (e_child apple_doc))"
    by blast+
  with 1 2 show ?thesis by (simp add: 3 4)
qed

text \<open>
  \<^verbatim>\<open>POST /api/content/add\<close> refuses a word of more than 20 code units and a letter of
  more than one; \<^verbatim>\<open>POST /api/specialist/content/add\<close>, for a child assigned to the
  caller, a word of more than 20 and a letter of more than two. Whatever route adds an
  item stores the trimmed text.
\<close>

lemma add_item_stores_trimmed:
  "add_item st uid cid t text difficulty img err nd ni now = (st', Inr created) \<Longrightarrow>
   i_text created = trim text"
  by (auto simp: add_item_def Let_def new_item_def
      split: if_splits option.splits difficulty_input.splits)

lemma content_add_stores_trimmed:
  "content_add st uid text ct difficulty c nd ni now = (st', Inr created) \<Longrightarrow>
   i_text created = trim text"
  unfolding content_add_def
  by (auto dest: add_item_stores_trimmed
      split: sum.splits type_input.splits option.splits if_splits)

lemma specialist_content_add_stores_trimmed:
  "specialist_content_add st uid text ct difficulty c nd ni now = (st', Inr created) \<Longrightarrow>
   i_text created = trim text"
  unfolding specialist_content_add_def
  by (auto dest: add_item_stores_trimmed
      split: sum.splits type_input.splits option.splits if_splits)

lemma words_post_stores_trimmed:
  "words_post st uid text ct difficulty c upload nd ni now = (st', Inr created) \<Longrightarrow>
   i_text created = trim text"
  unfolding words_post_def Let_def
  by (auto dest: add_item_stores_trimmed
      split: sum.splits type_input.splits option.splits if_splits)

theorem add_routes_validate_length:
  assumes "users st uid = Some me" "text \<noteq> []" "difficulty \<noteq> Other_difficulty"
  shows "(length text > 20 \<longrightarrow>
            content_add st uid text (Type Word) difficulty (Some cid) nd ni now =
              (st, Inl (Failure 400 Word_max_20))) \<and>
         (length text > 1 \<longrightarrow>
            content_add st uid text (Type Letter) difficulty (Some cid) nd ni now =
              (st, Inl (Failure 400 Letter_must_be_single_character))) \<and>
         (\<forall>ch. find_child (children st) cid = Some ch \<and> assignedSpecialist ch = Some uid \<longrightarrow>
            (length text > 20 \<longrightarrow>
               specialist_content_add st uid text (Type Word) difficulty (Some cid) nd ni now =
                 (st, Inl (Failure 400 Word_max_20))) \<and>
            (length text > 2 \<longrightarrow>
               specialist_content_add st uid text (Type Letter) difficulty (Some cid) nd ni now =
                 (st, Inl (Failure 400 Letter_with_vowel_max_2)))) \<and>
         (\<forall>st' created.
            content_add st uid text ct difficulty c nd ni now = (st', Inr created) \<or>
            specialist_content_add st uid text ct difficulty c nd ni now = (st', Inr created) \<or>
            words_post st uid text ct difficulty c upload nd ni now = (st', Inr created) \<longrightarrow>
            i_text created = trim text)"
proof (intro conjI allI impI)
  show "content_add st uid text (Type Word) difficulty (Some cid) nd ni now =
          (st, Inl (Failure 400 Word_max_20))" if "length text > 20"
    using that assms(2,3) protect_ok [OF assms(1)] by (simp add: content_add_def)
  show "content_add st uid text (Type Letter) difficulty (Some cid) nd ni now =
          (st, Inl (Failure 400 Letter_must_be_single_character))" if "length text > 1"
    using that assms(2,3) protect_ok [OF assms(1)] by (simp add: content_add_def)
  show "specialist_content_add st uid text (Type Word) difficulty (Some cid) nd ni now =
          (st, Inl (Failure 400 Word_max_20))"
    if "find_child (children st) cid = Some ch \<and> assignedSpecialist ch = Some uid"
      "length text > 20" for ch
    using that assms(2,3) protect_ok [OF assms(1)] by (simp add: specialist_content_add_def)
  show "specialist_content_add st uid text (Type Letter) difficulty (Some cid) nd ni now =
          (st, Inl (Failure 400 Letter_with_vowel_max_2))"
    if "find_child (children st) cid = Some ch \<and> assignedSpecialist ch = Some uid"
      "length text > 2" for ch
    using that assms(2,3) protect_ok [OF assms(1)] by (simp add: specialist_content_add_def)
  show "i_text created = trim text"
    if "content_add st uid text ct difficulty c nd ni now = (st', Inr created) \<or>
        specialist_content_add st uid text ct difficulty c nd ni now = (st', Inr created) \<or>
        words_post st uid text ct difficulty c upload nd ni now = (st', Inr created)"
    for st' created
    using that
    by (auto dest: content_add_stores_trimmed specialist_content_add_stores_trimmed
        words_post_stores_trimmed)
qed

theorem add_routes_validate_length_witness:
  "users store0 1 = Some demo_parent \<and> long_word \<noteq> [] \<and>
   length long_word > 20 \<and>
   content_add store0 1 long_word (Type Word) No_difficulty (Some 10) 50 500 7 =
     (store0, Inl (Failure 400 Word_max_20))"
proof -
  have 1: "users store0 1 = Some demo_parent" by (simp add: store0_def)
  have 2: "long_word \<noteq> []" by (simp add: long_word_def)
  have 3: "No_difficulty \<noteq> Other_difficulty" by simp
  have 4: "length long_word > 20" by (simp add: long_word_def)
  from add_routes_validate_length [OF 1 2 3, of 10 50 500 7] 4
  have "content_add store0 1 long_word (Type Word) No_difficulty (Some 10) 50 500 7 =
     (store0, Inl (Failure 400 Word_max_20))" by blast
  with 1 2 4 show ?thesis by simp
qed

end
